theory Spec2Isabelle
  imports Main "HOL-Library.Char_ord" "HOL-Library.List_Lexorder" "HOL-Library.Multiset"
begin

section \<open>Data model\<close>

text \<open>
  JavaScript strings are modelled as HOL strings: a character is one code unit. Addresses
  (the type \<^verbatim>\<open>0x${string}\<close> of the sources) are such strings. JavaScript numbers that
  hold thresholds and chain ids are integers and are modelled as \<^typ>\<open>int\<close>.
\<close>

type_synonym address = string

text \<open>
  The Safe SDK's transaction data (the ten \<^verbatim>\<open>SafeTx\<close> fields) and a transaction with its
  signatures. The signatures of an \<^verbatim>\<open>EthSafeTransaction\<close> are a \<^verbatim>\<open>Map\<close> keyed by the
  lower-cased signer, kept here as an association list in insertion order. A member
  whose name another record of this theory has, or Isabelle reserves, carries a prefix
  (\<open>tx_to\<close>, \<open>tx_value\<close>, \<open>tx_data\<close>, \<open>tx_operation\<close>, \<open>sig_data\<close>, \<open>info_nonce\<close>).
  The declared type of \<^verbatim>\<open>nonce\<close> is \<^verbatim>\<open>number\<close>, but a transaction revived from imported JSON
  keeps whatever value the JSON gave, so the type of the nonce is a parameter \<open>'v\<close> of the
  records: \<^typ>\<open>int\<close> where the code is given numbers, the JSON values in the store.
\<close>

record safe_signature =
  signer :: address
  sig_data :: string
  isContractSignature :: bool

record 'v safe_tx_data =
  tx_to :: address
  tx_value :: string
  tx_data :: string
  tx_operation :: int
  safeTxGas :: string
  baseGas :: string
  gasPrice :: string
  gasToken :: address
  refundReceiver :: address
  nonce :: 'v

record 'v eth_safe_transaction =
  data :: "'v safe_tx_data"
  signatures :: "(string \<times> safe_signature) list"

text \<open>The account snapshot \<^verbatim>\<open>safeInfo\<close> of the \<^verbatim>\<open>useSafe\<close> hook.\<close>

record safe_info =
  owners :: "address list"
  threshold :: int
  version :: string
  chainId :: int
  deployed :: bool
  info_nonce :: int

section \<open>Next available nonce (TokenTransferModal.tsx)\<close>


section \<open>Array and string helpers\<close>

text \<open>
  \<^verbatim>\<open>Array.prototype.findIndex\<close>: the index of the first element that satisfies the
  predicate; \<open>None\<close> stands for JavaScript's \<^verbatim>\<open>-1\<close>.
\<close>

fun findIndex :: "('a \<Rightarrow> bool) \<Rightarrow> 'a list \<Rightarrow> nat option" where
  "findIndex P [] = None"
| "findIndex P (x # xs) = (if P x then Some 0 else map_option Suc (findIndex P xs))"

text \<open>
  \<^verbatim>\<open>String.prototype.toLowerCase\<close> on the strings of this model, whose code units are
  below 256: the letters \<^verbatim>\<open>A\<close> to \<^verbatim>\<open>Z\<close>, and the code units 192 to 222 other than the
  multiplication sign 215, become lower case by setting bit 5 of the code (adding 32);
  every other code unit stays. Addresses are ASCII.
\<close>

fun lower_char :: "char \<Rightarrow> char" where
  "lower_char (Char b0 b1 b2 b3 b4 b5 b6 b7) =
     (let c = Char b0 b1 b2 b3 b4 b5 b6 b7
      in if (CHR ''A'' \<le> c \<and> c \<le> CHR ''Z'')
            \<or> (CHR 0xC0 \<le> c \<and> c \<le> CHR 0xDE \<and> c \<noteq> CHR 0xD7)
         then Char b0 b1 b2 b3 b4 True b6 b7
         else c)"

definition toLowerCase :: "string \<Rightarrow> string" where
  "toLowerCase s = map lower_char s"

section \<open>Pending transaction store (SafeTxProvider.tsx)\<close>

text \<open>
  The shape written to and read from JSON: \<^verbatim>\<open>{data, signatures}\<close>, either of which an
  imported document may lack.
\<close>

record 'v stored_tx =
  stored_data :: "'v safe_tx_data option"
  stored_signatures :: "safe_signature list option"

text \<open>
  The provider's state: the in-memory map \<^verbatim>\<open>currentTxMapRef.current\<close> and the parsed
  content of the local-storage item \<^verbatim>\<open>SAFE_TX_STORAGE_KEY\<close> (\<open>None\<close> when the item is
  absent). The model runs in a browser (\<^verbatim>\<open>window\<close> is defined), and the item, when present,
  is the JSON object this module wrote.
\<close>

record 'v tx_store =
  currentTxMap :: "string \<rightharpoonup> 'v eth_safe_transaction list"
  localStorage :: "(string \<rightharpoonup> 'v stored_tx list) option"

text \<open>\<^verbatim>\<open>Map.prototype.set\<close>: an existing key keeps its place, a new key goes last.\<close>

fun Map_set :: "'k \<Rightarrow> 'w \<Rightarrow> ('k \<times> 'w) list \<Rightarrow> ('k \<times> 'w) list" where
  "Map_set k v [] = [(k, v)]"
| "Map_set k v (p # ps) = (if fst p = k then (k, v) # ps else p # Map_set k v ps)"

definition addSignature ::
  "'v eth_safe_transaction \<Rightarrow> safe_signature \<Rightarrow> 'v eth_safe_transaction" where
  "addSignature tx s = tx\<lparr>signatures := Map_set (toLowerCase (signer s)) s (signatures tx)\<rparr>"

text \<open>
  \<^verbatim>\<open>new EthSafeTransaction(stored.data)\<close> followed by \<^verbatim>\<open>addSignature\<close> for each stored
  signature; an entry without \<^verbatim>\<open>data\<close> is skipped by both hydration and import. The data
  is taken as it is: the nonce keeps the value and the type the JSON gave it.
\<close>

definition revive :: "'v stored_tx \<Rightarrow> 'v eth_safe_transaction option" where
  "revive s =
     (case stored_data s of
        None \<Rightarrow> None
      | Some d \<Rightarrow>
          Some (fold (\<lambda>sg tx. addSignature tx sg)
                  (case stored_signatures s of None \<Rightarrow> [] | Some sgs \<Rightarrow> sgs)
                  \<lparr>data = d, signatures = []\<rparr>))"

definition to_stored :: "'v eth_safe_transaction \<Rightarrow> 'v stored_tx" where
  "to_stored tx = \<lparr>stored_data = Some (data tx), stored_signatures = Some (map snd (signatures tx))\<rparr>"

abbreviation nonce_of :: "'v eth_safe_transaction \<Rightarrow> 'v" where
  "nonce_of tx \<equiv> nonce (data tx)"

text \<open>The composite key; an empty \<^verbatim>\<open>chainId\<close> is falsy like an absent one.\<close>

definition storeKey :: "string \<Rightarrow> string option \<Rightarrow> string" where
  "storeKey safeAddress chainId' =
     (case chainId' of
        None \<Rightarrow> safeAddress
      | Some c \<Rightarrow> if c = [] then safeAddress else safeAddress @ ''-'' @ c)"

text \<open>The block that reads the stored map, sets one key and writes the map back.\<close>

definition persist :: "string \<Rightarrow> 'v eth_safe_transaction list \<Rightarrow> 'v tx_store \<Rightarrow> 'v tx_store" where
  "persist key txs st =
     st\<lparr>localStorage :=
          Some ((case localStorage st of None \<Rightarrow> Map.empty | Some m \<Rightarrow> m)(key \<mapsto> map to_stored txs))\<rparr>"

definition unpersist :: "string \<Rightarrow> 'v tx_store \<Rightarrow> 'v tx_store" where
  "unpersist key st =
     st\<lparr>localStorage :=
          Some ((case localStorage st of None \<Rightarrow> Map.empty | Some m \<Rightarrow> m)(key := None))\<rparr>"

text \<open>
  Nonces in the store are the values JSON gave them, of any type \<open>'v\<close>: writing them to
  local storage and reading them back gives the same values. What JavaScript does with
  them is a parameter of the operations that do it: \<open>strict_equal\<close> is \<^verbatim>\<open>===\<close> on two such
  values (a number and a string are never strictly equal, whatever they convert to), and
  \<open>Number\<close> is \<^verbatim>\<open>Number(...)\<close>, the number a value converts to, or \<open>None\<close> for \<^verbatim>\<open>NaN\<close>;
  the numbers are any linearly ordered type. On two numbers \<^verbatim>\<open>===\<close> holds when they are the
  same number and neither is \<^verbatim>\<open>NaN\<close>.
\<close>

definition same_number :: "'n option \<Rightarrow> 'n option \<Rightarrow> bool" where
  "same_number a b = (case a of None \<Rightarrow> False | Some x \<Rightarrow> b = Some x)"

text \<open>
  The comparator \<^verbatim>\<open>(a, b) => Number(a.data.nonce) - Number(b.data.nonce)\<close> does not put \<open>a\<close>
  after \<open>b\<close>: its result is not positive. A result \<^verbatim>\<open>NaN\<close> counts as 0 in a sort.
\<close>

definition in_order ::
  "('v \<Rightarrow> 'n::linorder option) \<Rightarrow> 'v eth_safe_transaction \<Rightarrow> 'v eth_safe_transaction \<Rightarrow> bool" where
  "in_order Number a b =
     (case Number (nonce_of a) of
        None \<Rightarrow> True
      | Some x \<Rightarrow> (case Number (nonce_of b) of None \<Rightarrow> True | Some y \<Rightarrow> x \<le> y))"

text \<open>
  \<^verbatim>\<open>Array.prototype.sort\<close> is stable, and for a consistent comparator its result is fixed
  by the language: insertion from the right, each element before the first one it need
  not follow, computes it. This comparator is consistent on an array exactly when every
  nonce converts or the nonces that convert are all equal; otherwise the language
  leaves the order to the engine, and the model gives no result (\<open>None\<close>).
\<close>

fun insort_by :: "('a \<Rightarrow> 'a \<Rightarrow> bool) \<Rightarrow> 'a \<Rightarrow> 'a list \<Rightarrow> 'a list" where
  "insort_by le x [] = [x]"
| "insort_by le x (y # ys) = (if le x y then x # y # ys else y # insort_by le x ys)"

definition sort_by :: "('a \<Rightarrow> 'a \<Rightarrow> bool) \<Rightarrow> 'a list \<Rightarrow> 'a list" where
  "sort_by le xs = foldr (insort_by le) xs []"

definition comparator_consistent ::
  "('v \<Rightarrow> 'n option) \<Rightarrow> 'v eth_safe_transaction list \<Rightarrow> bool" where
  "comparator_consistent Number txs \<longleftrightarrow>
     list_all (\<lambda>tx. Number (nonce_of tx) \<noteq> None) txs
     \<or> (case List.map_filter (\<lambda>tx. Number (nonce_of tx)) txs of
           [] \<Rightarrow> True
         | k # ks \<Rightarrow> list_all (\<lambda>k'. k' = k) ks)"

definition js_sort ::
  "('v \<Rightarrow> 'n::linorder option) \<Rightarrow> 'v eth_safe_transaction list \<Rightarrow>
   'v eth_safe_transaction list option" where
  "js_sort Number txs =
     (if comparator_consistent Number txs then Some (sort_by (in_order Number) txs) else None)"

text \<open>
  \<^verbatim>\<open>saveTransaction\<close> looks for an entry whose nonce is strictly equal to the new one
  (\<^verbatim>\<open>tx.data.nonce === txObj.data.nonce\<close>) and sorts by the converted nonces. Its result
  is \<open>None\<close> when the sort has none.
\<close>

definition saveTransaction ::
  "('v \<Rightarrow> 'v \<Rightarrow> bool) \<Rightarrow> ('v \<Rightarrow> 'n::linorder option) \<Rightarrow> string \<Rightarrow>
   'v eth_safe_transaction \<Rightarrow> string option \<Rightarrow> 'v tx_store \<Rightarrow> 'v tx_store option" where
  "saveTransaction strict_equal Number safeAddress txObj chainId' st =
     (let key = storeKey safeAddress chainId';
          existingTxs = (case currentTxMap st key of None \<Rightarrow> [] | Some txs \<Rightarrow> txs);
          existingIndex =
            findIndex (\<lambda>tx. strict_equal (nonce (data tx)) (nonce (data txObj))) existingTxs;
          updated =
            (case existingIndex of
               Some i \<Rightarrow> existingTxs[i := txObj]
             | None \<Rightarrow> existingTxs @ [txObj])
      in case js_sort Number updated of
           None \<Rightarrow> None
         | Some sortedTxs \<Rightarrow>
             Some (persist key sortedTxs (st\<lparr>currentTxMap := (currentTxMap st)(key \<mapsto> sortedTxs)\<rparr>)))"


definition getAllTransactions ::
  "string \<Rightarrow> string option \<Rightarrow> 'v tx_store \<Rightarrow> 'v eth_safe_transaction list" where
  "getAllTransactions safeAddress chainId' st =
     (case currentTxMap st (storeKey safeAddress chainId') of None \<Rightarrow> [] | Some txs \<Rightarrow> txs)"

text \<open>
  \<^verbatim>\<open>removeTransaction(safeAddress, txHash?, nonce?, chainId?)\<close>: with neither a (truthy)
  hash nor a nonce the queue of the key is cleared; otherwise the entries whose converted
  nonce is the given number are filtered out (a hash alone removes nothing). The
  argument \<open>nonce'\<close> is \<open>None\<close> for \<^verbatim>\<open>undefined\<close> and otherwise a number, \<open>Some None\<close> being
  \<^verbatim>\<open>NaN\<close>.
\<close>

definition removeTransaction ::
  "('v \<Rightarrow> 'n option) \<Rightarrow> string \<Rightarrow> string option \<Rightarrow> 'n option option \<Rightarrow> string option \<Rightarrow>
   'v tx_store \<Rightarrow> 'v tx_store" where
  "removeTransaction Number safeAddress txHash nonce' chainId' st =
     (let key = storeKey safeAddress chainId' in
      if (txHash = None \<or> txHash = Some []) \<and> nonce' = None then
        unpersist key (st\<lparr>currentTxMap := (currentTxMap st)(key \<mapsto> [])\<rparr>)
      else
        (let existingTxs = (case currentTxMap st key of None \<Rightarrow> [] | Some txs \<Rightarrow> txs);
             filtered =
               (case nonce' of
                  Some n \<Rightarrow>
                    filter (\<lambda>tx. \<not> same_number (Number (nonce (data tx))) n) existingTxs
                | None \<Rightarrow> existingTxs);
             st' = st\<lparr>currentTxMap := (currentTxMap st)(key \<mapsto> filtered)\<rparr>
         in if length filtered > 0 then persist key filtered st' else unpersist key st'))"

text \<open>
  The document handed to \<^verbatim>\<open>importTx\<close>, after \<^verbatim>\<open>JSON.parse\<close>: the current format (an
  array under \<^verbatim>\<open>transactions\<close>), the old format (one entry under \<^verbatim>\<open>tx\<close>), or anything
  else, including text that does not parse.
\<close>

datatype 'v import_json = Transactions "'v stored_tx list" | SingleTx "'v stored_tx" | Unrecognised

definition imported_transactions :: "'v import_json \<Rightarrow> 'v eth_safe_transaction list" where
  "imported_transactions obj =
     (case obj of
        Transactions arr \<Rightarrow> List.map_filter revive arr
      | SingleTx s \<Rightarrow> (case revive s of None \<Rightarrow> [] | Some tx \<Rightarrow> [tx])
      | Unrecognised \<Rightarrow> [])"

text \<open>
  The body of the \<^verbatim>\<open>forEach\<close> that merges one imported transaction; it looks for an
  entry whose converted nonce equals the imported one's
  (\<^verbatim>\<open>Number(tx.data.nonce) === Number(importedTx.data.nonce)\<close>).
\<close>

definition mergeImported ::
  "('v \<Rightarrow> 'n option) \<Rightarrow> 'v eth_safe_transaction \<Rightarrow> 'v eth_safe_transaction list \<Rightarrow>
   'v eth_safe_transaction list" where
  "mergeImported Number importedTx mergedTxs =
     (case findIndex
             (\<lambda>tx. same_number (Number (nonce (data tx))) (Number (nonce (data importedTx))))
             mergedTxs of
        Some i \<Rightarrow> mergedTxs[i := importedTx]
      | None \<Rightarrow> mergedTxs @ [importedTx])"

definition importTx ::
  "('v \<Rightarrow> 'n::linorder option) \<Rightarrow> string \<Rightarrow> 'v import_json \<Rightarrow> string option \<Rightarrow>
   'v tx_store \<Rightarrow> 'v tx_store option" where
  "importTx Number safeAddress obj chainId' st =
     (let key = storeKey safeAddress chainId';
          transactions = imported_transactions obj
      in if length transactions > 0 then
           (let existingTxs = (case currentTxMap st key of None \<Rightarrow> [] | Some txs \<Rightarrow> txs);
                mergedTxs = fold (mergeImported Number) transactions existingTxs
            in case js_sort Number mergedTxs of
                 None \<Rightarrow> None
               | Some sortedTxs \<Rightarrow>
                   Some (persist key sortedTxs
                           (st\<lparr>currentTxMap := (currentTxMap st)(key \<mapsto> sortedTxs)\<rparr>)))
         else Some st)"

text \<open>
  Mounting the provider: the in-memory map starts empty and every key of the stored map
  is set to its revived entries.
\<close>

definition hydrate :: "'v tx_store \<Rightarrow> 'v tx_store" where
  "hydrate st =
     (case localStorage st of
        None \<Rightarrow> st\<lparr>currentTxMap := Map.empty\<rparr>
      | Some m \<Rightarrow> st\<lparr>currentTxMap := (\<lambda>k. map_option (List.map_filter revive) (m k))\<rparr>)"

definition initial_store :: "'v tx_store" where
  "initial_store = \<lparr>currentTxMap = Map.empty, localStorage = None\<rparr>"

text \<open>
  The states the provider can be in: a first visit, then any sequence of calls and
  reloads, each save and import with the result the language fixes.
\<close>

inductive reachable ::
  "('v \<Rightarrow> 'v \<Rightarrow> bool) \<Rightarrow> ('v \<Rightarrow> 'n::linorder option) \<Rightarrow> 'v tx_store \<Rightarrow> bool"
  for strict_equal :: "'v \<Rightarrow> 'v \<Rightarrow> bool" and Number :: "'v \<Rightarrow> 'n::linorder option" where
  r_init: "reachable strict_equal Number initial_store"
| r_save: "reachable strict_equal Number st \<Longrightarrow>
           saveTransaction strict_equal Number a tx c st = Some st' \<Longrightarrow>
           reachable strict_equal Number st'"
| r_import: "reachable strict_equal Number st \<Longrightarrow> importTx Number a obj c st = Some st' \<Longrightarrow>
             reachable strict_equal Number st'"
| r_remove: "reachable strict_equal Number st \<Longrightarrow>
             reachable strict_equal Number (removeTransaction Number a h n c st)"
| r_reload: "reachable strict_equal Number st \<Longrightarrow> reachable strict_equal Number (hydrate st)"

text \<open>A transaction with a given nonce and otherwise empty fields, for concrete inputs.\<close>

definition example_tx :: "'v \<Rightarrow> string \<Rightarrow> 'v eth_safe_transaction" where
  "example_tx n payload =
     \<lparr>data = \<lparr>tx_to = ''0xA'', tx_value = ''0'', tx_data = payload, tx_operation = 0,
               safeTxGas = ''0'', baseGas = ''0'', gasPrice = ''0'', gasToken = ''0x0'',
               refundReceiver = ''0x0'', nonce = n\<rparr>,
      signatures = []\<rparr>"

definition example_info :: "address list \<Rightarrow> int \<Rightarrow> int \<Rightarrow> safe_info" where
  "example_info os t n =
     \<lparr>owners = os, threshold = t, version = ''1.4.1'', chainId = 1, deployed = True,
      info_nonce = n\<rparr>"

text \<open>
  Nonces as JSON gives them, for concrete inputs: an integer or a string. On them \<^verbatim>\<open>===\<close>
  is equality of type and value, and \<open>example_Number\<close> is \<^verbatim>\<open>Number(...)\<close> on the integers
  and on the strings of decimal digits, which are all the examples use; it takes every
  other string, \<^verbatim>\<open>"abc"\<close> say, to \<^verbatim>\<open>NaN\<close>.
\<close>

datatype json_nonce = JNumber int | JString string

definition example_strict_equal :: "json_nonce \<Rightarrow> json_nonce \<Rightarrow> bool" where
  "example_strict_equal a b \<longleftrightarrow> a = b"

definition digit_of :: "char \<Rightarrow> int option" where
  "digit_of c = map_option int (findIndex (\<lambda>d. d = c) ''0123456789'')"

fun decimal_from :: "int \<Rightarrow> string \<Rightarrow> int option" where
  "decimal_from acc [] = Some acc"
| "decimal_from acc (c # cs) =
     (case digit_of c of None \<Rightarrow> None | Some d \<Rightarrow> decimal_from (10 * acc + d) cs)"

fun example_Number :: "json_nonce \<Rightarrow> int option" where
  "example_Number (JNumber n) = Some n"
| "example_Number (JString s) = decimal_from 0 s"

section \<open>Invariant of the store\<close>



text \<open>The common tail of the writing operations: one key is set in memory and persisted.\<close>

definition set_queue ::
  "string \<Rightarrow> 'v eth_safe_transaction list \<Rightarrow> 'v tx_store \<Rightarrow> 'v tx_store" where
  "set_queue key l st = persist key l (st\<lparr>currentTxMap := (currentTxMap st)(key \<mapsto> l)\<rparr>)"

text \<open>
  The transactions the examples import and save, and the stores of one Safe on chain 1
  they lead to: after an import whose JSON gives the nonce as the string \<^verbatim>\<open>"7"\<close>, after
  a transaction with nonce 7 is then saved, and after one with nonce 5 is saved too.
\<close>

definition imported_7 :: "json_nonce eth_safe_transaction" where
  "imported_7 = example_tx (JString ''7'') ''0x01''"

definition saved_7 :: "json_nonce eth_safe_transaction" where
  "saved_7 = example_tx (JNumber 7) ''0x02''"

definition saved_5 :: "json_nonce eth_safe_transaction" where
  "saved_5 = example_tx (JNumber 5) ''0x03''"

definition string_nonce_store :: "json_nonce tx_store" where
  "string_nonce_store = set_queue (storeKey ''0xS'' (Some ''1'')) [imported_7] initial_store"

definition two_sevens_store :: "json_nonce tx_store" where
  "two_sevens_store =
     set_queue (storeKey ''0xS'' (Some ''1'')) [imported_7, saved_7] initial_store"


section \<open>Owner management (the useSafe hook)\<close>

text \<open>
  \<^verbatim>\<open>Array.prototype.filter\<close> with a callback that reads the index only, as in
  \<^verbatim>\<open>currentOwners.filter((_, i) => i !== ownerIndex)\<close>; the second argument is the index of
  the head.
\<close>

fun filter_index :: "(nat \<Rightarrow> bool) \<Rightarrow> nat \<Rightarrow> 'a list \<Rightarrow> 'a list" where
  "filter_index P i [] = []"
| "filter_index P i (x # xs) =
     (if P i then x # filter_index P (Suc i) xs else filter_index P (Suc i) xs)"

datatype change_type = Add | Remove

record owner_change =
  type :: change_type
  address :: address

text \<open>
  What \<^verbatim>\<open>encodeFunctionData({abi: SAFE_ABI, functionName, args})\<close> is given: the function of
  the Safe contract and its arguments. The ABI encoding itself is the library's and is
  not modelled; a call stands for its encoding.
\<close>

datatype safe_call =
  addOwnerWithThreshold address int
| removeOwner address address int
| swapOwner address address address
| changeThreshold int

text \<open>An element of the array handed to \<^verbatim>\<open>buildSafeTransaction\<close>.\<close>

record meta_transaction =
  call_to :: address
  call_value :: string
  call_data :: safe_call
  call_operation :: int

text \<open>
  The exceptions the functions throw: \<^verbatim>\<open>Error("Owner not found")\<close> and
  \<^verbatim>\<open>Error(`Owner ${removal.address} not found`)\<close>.
\<close>

datatype error = OwnerNotFound | OwnerAddressNotFound address

definition SENTINEL_OWNERS :: address where
  "SENTINEL_OWNERS = ''0x0000000000000000000000000000000000000001''"

definition safe_call_tx :: "address \<Rightarrow> safe_call \<Rightarrow> meta_transaction" where
  "safe_call_tx safeAddress d =
     \<lparr>call_to = safeAddress, call_value = ''0'', call_data = d, call_operation = 0\<rparr>"

text \<open>
  The functions return \<open>None\<close> when \<^verbatim>\<open>safeInfo\<close> is null, \<open>Some (Inl e)\<close> when they throw
  before \<^verbatim>\<open>buildSafeTransaction\<close> is called, and otherwise \<open>Some (Inr transactions)\<close>
  with the array they hand to \<^verbatim>\<open>buildSafeTransaction\<close>.
\<close>

definition createRemoveOwnerTransaction ::
  "safe_info option \<Rightarrow> address \<Rightarrow> address \<Rightarrow> int \<Rightarrow> (error + meta_transaction list) option" where
  "createRemoveOwnerTransaction safeInfo safeAddress ownerToRemove newThreshold =
     (case safeInfo of
        None \<Rightarrow> None
      | Some info \<Rightarrow>
          Some
            (case findIndex (\<lambda>ow. toLowerCase ow = toLowerCase ownerToRemove) (owners info) of
               None \<Rightarrow> Inl OwnerNotFound
             | Some ownerIndex \<Rightarrow>
                 (let prevOwner =
                        (if ownerIndex = 0 then SENTINEL_OWNERS
                         else owners info ! (ownerIndex - 1));
                      d = removeOwner prevOwner ownerToRemove newThreshold
                  in Inr [safe_call_tx safeAddress d])))"

text \<open>The \<^verbatim>\<open>for (const removal of removals)\<close> loop, on the pair of the two arrays it updates.\<close>

fun removal_loop ::
  "address \<Rightarrow> int \<Rightarrow> owner_change list \<Rightarrow> meta_transaction list \<times> address list \<Rightarrow>
   error + meta_transaction list \<times> address list" where
  "removal_loop safeAddress thr [] (transactions, currentOwners) = Inr (transactions, currentOwners)"
| "removal_loop safeAddress thr (removal # rest) (transactions, currentOwners) =
     (case findIndex (\<lambda>ow. toLowerCase ow = toLowerCase (address removal)) currentOwners of
        None \<Rightarrow> Inl (OwnerAddressNotFound (address removal))
      | Some ownerIndex \<Rightarrow>
          (let prevOwner =
                 (if ownerIndex = 0 then SENTINEL_OWNERS else currentOwners ! (ownerIndex - 1));
               d = removeOwner prevOwner (address removal) thr
           in removal_loop safeAddress thr rest
                (transactions @ [safe_call_tx safeAddress d],
                 filter_index (\<lambda>i. i \<noteq> ownerIndex) 0 currentOwners)))"

text \<open>The \<^verbatim>\<open>for (const addition of additions)\<close> loop.\<close>

fun addition_loop ::
  "address \<Rightarrow> int \<Rightarrow> owner_change list \<Rightarrow> meta_transaction list \<times> address list \<Rightarrow>
   meta_transaction list \<times> address list" where
  "addition_loop safeAddress thr [] (transactions, currentOwners) = (transactions, currentOwners)"
| "addition_loop safeAddress thr (addition # rest) (transactions, currentOwners) =
     (let d = addOwnerWithThreshold (address addition) thr
      in addition_loop safeAddress thr rest
           (transactions @ [safe_call_tx safeAddress d], currentOwners @ [address addition]))"

definition createBatchedOwnerManagementTransaction ::
  "safe_info option \<Rightarrow> address \<Rightarrow> owner_change list \<Rightarrow> int \<Rightarrow>
   (error + meta_transaction list) option" where
  "createBatchedOwnerManagementTransaction safeInfo safeAddress changes newThreshold =
     (case safeInfo of
        None \<Rightarrow> None
      | Some info \<Rightarrow>
          Some
            (let removals = filter (\<lambda>c. type c = Remove) changes;
                 additions = filter (\<lambda>c. type c = Add) changes;
                 currentOwners = owners info;
                 encoded =
                   (if length removals = 1 \<and> length additions = 1 then
                      (let removal = removals ! 0;
                           addition = additions ! 0
                       in case findIndex (\<lambda>ow. toLowerCase ow = toLowerCase (address removal))
                                 currentOwners of
                            None \<Rightarrow> Inl (OwnerAddressNotFound (address removal))
                          | Some ownerIndex \<Rightarrow>
                              (let prevOwner =
                                     (if ownerIndex = 0 then SENTINEL_OWNERS
                                      else currentOwners ! (ownerIndex - 1));
                                   d = swapOwner prevOwner (address removal) (address addition)
                               in Inr ([safe_call_tx safeAddress d],
                                       filter_index (\<lambda>i. i \<noteq> ownerIndex) 0 currentOwners
                                         @ [address addition])))
                    else
                      (case removal_loop safeAddress (threshold info) removals ([], currentOwners) of
                         Inl e \<Rightarrow> Inl e
                       | Inr s \<Rightarrow> Inr (addition_loop safeAddress (threshold info) additions s)))
             in case encoded of
                  Inl e \<Rightarrow> Inl e
                | Inr (transactions, finalOwners) \<Rightarrow>
                    Inr (if newThreshold \<noteq> threshold info
                         then transactions @ [safe_call_tx safeAddress (changeThreshold newThreshold)]
                         else transactions)))"

section \<open>The owner-management dialog (ManageOwnersModal.tsx)\<close>

text \<open>
  The dialog's state when \<^verbatim>\<open>handleCreateTransaction\<close> runs. \<^verbatim>\<open>ownersToRemove\<close> is a
  \<^verbatim>\<open>Set\<close>, given by its elements in insertion order.
\<close>

record manage_owners =
  modal_owners :: "string list"
  modal_threshold :: int
  ownersToRemove :: "string list"
  ownersToAdd :: "string list"
  newThreshold :: int

text \<open>
  What the handler does: one of its two alerts (the first shows the final owner count),
  or the call \<^verbatim>\<open>onBatchUpdate(changes, newThreshold)\<close>.
\<close>

datatype modal_outcome =
  AlertThresholdRange int
| AlertNoChanges
| OnBatchUpdate "owner_change list" int

definition finalOwnerCount :: "manage_owners \<Rightarrow> int" where
  "finalOwnerCount m =
     int (length (modal_owners m)) - int (length (ownersToRemove m)) + int (length (ownersToAdd m))"

definition hasChanges :: "manage_owners \<Rightarrow> bool" where
  "hasChanges m \<longleftrightarrow>
     length (ownersToRemove m) > 0 \<or> length (ownersToAdd m) > 0 \<or> newThreshold m \<noteq> modal_threshold m"

definition handleCreateTransaction :: "manage_owners \<Rightarrow> modal_outcome" where
  "handleCreateTransaction m =
     (if newThreshold m < 1 \<or> newThreshold m > finalOwnerCount m then
        AlertThresholdRange (finalOwnerCount m)
      else if \<not> hasChanges m then AlertNoChanges
      else
        (let changes =
               map (\<lambda>addr. \<lparr>type = Remove, address = addr\<rparr>) (ownersToRemove m)
               @ map (\<lambda>addr. \<lparr>type = Add, address = addr\<rparr>) (ownersToAdd m)
         in OnBatchUpdate changes (newThreshold m)))"

text \<open>
  The dialog wired to the hook, as the Safe page does (\<^verbatim>\<open>handleOwnerManagementBatch\<close>
  passes the changes on): \<open>Inl\<close> is an alert of the dialog before anything is encoded.
\<close>

definition submitOwnerChanges ::
  "safe_info option \<Rightarrow> address \<Rightarrow> manage_owners \<Rightarrow>
   modal_outcome + (error + meta_transaction list) option" where
  "submitOwnerChanges safeInfo safeAddress m =
     (case handleCreateTransaction m of
        OnBatchUpdate changes nt \<Rightarrow>
          Inr (createBatchedOwnerManagementTransaction safeInfo safeAddress changes nt)
      | alert \<Rightarrow> Inl alert)"

definition ownerA :: address where "ownerA = ''0xAAaa01''"

definition ownerB :: address where "ownerB = ''0xBBbb02''"

definition ownerC :: address where "ownerC = ''0xCCcc03''"

definition ownerD :: address where "ownerD = ''0xDDdd04''"

definition safeS :: address where "safeS = ''0x5afe''"

section \<open>Notions the owner-management properties are stated with\<close>

text \<open>
  An owner sits at index \<open>i\<close> of an owners array when \<open>i\<close> is the first index whose entry
  equals the address up to letter case.
\<close>

definition sits_at :: "address \<Rightarrow> address list \<Rightarrow> nat \<Rightarrow> bool" where
  "sits_at a os i \<longleftrightarrow>
     i < length os \<and> toLowerCase (os ! i) = toLowerCase a \<and>
     (\<forall>j<i. toLowerCase (os ! j) \<noteq> toLowerCase a)"

text \<open>The predecessor of index \<open>i\<close> in the owners' linked list.\<close>

definition prev_owner :: "address list \<Rightarrow> nat \<Rightarrow> address" where
  "prev_owner os i = (if i = 0 then SENTINEL_OWNERS else os ! (i - 1))"

text \<open>The owners array with an owner deleted, and with a sequence of owners deleted in turn.\<close>

fun delete_owner :: "address \<Rightarrow> address list \<Rightarrow> address list" where
  "delete_owner a [] = []"
| "delete_owner a (ow # os) =
     (if toLowerCase ow = toLowerCase a then os else ow # delete_owner a os)"

definition owners_after :: "address list \<Rightarrow> address list \<Rightarrow> address list" where
  "owners_after os removed = fold delete_owner removed os"

fun is_changeThreshold :: "safe_call \<Rightarrow> bool" where
  "is_changeThreshold (changeThreshold n) = True"
| "is_changeThreshold c = False"

fun is_swapOwner :: "safe_call \<Rightarrow> bool" where
  "is_swapOwner (swapOwner p a b) = True"
| "is_swapOwner c = False"

fun is_removeOwner :: "safe_call \<Rightarrow> bool" where
  "is_removeOwner (removeOwner p a n) = True"
| "is_removeOwner c = False"

fun is_addOwnerWithThreshold :: "safe_call \<Rightarrow> bool" where
  "is_addOwnerWithThreshold (addOwnerWithThreshold a n) = True"
| "is_addOwnerWithThreshold c = False"

text \<open>The threshold argument of a call that adds or removes an owner.\<close>

fun threshold_argument :: "safe_call \<Rightarrow> int option" where
  "threshold_argument (addOwnerWithThreshold a n) = Some n"
| "threshold_argument (removeOwner p a n) = Some n"
| "threshold_argument c = None"

definition abc_info :: safe_info where
  "abc_info = example_info [ownerA, ownerB, ownerC] 2 0"

definition example_modal :: manage_owners where
  "example_modal =
     \<lparr>modal_owners = [ownerA, ownerB, ownerC], modal_threshold = 2,
      ownersToRemove = [toLowerCase ownerB], ownersToAdd = [], newThreshold = 3\<rparr>"

section \<open>Message hashing (messageHashing.ts)\<close>

text \<open>
  The relational comparison of two strings, as ECMAScript defines it (IsLessThan on
  strings): a string of which the other is a prefix is not less, a proper prefix is less,
  and otherwise the first code units that differ decide. \<^verbatim>\<open>x >= y\<close> is the negation of
  \<^verbatim>\<open>x < y\<close>.
\<close>

fun IsStringPrefix :: "string \<Rightarrow> string \<Rightarrow> bool" where
  "IsStringPrefix [] s = True"
| "IsStringPrefix (c # p) [] = False"
| "IsStringPrefix (c # p) (d # s) = (c = d \<and> IsStringPrefix p s)"

fun first_difference :: "string \<Rightarrow> string \<Rightarrow> (char \<times> char) option" where
  "first_difference (c # p) (d # q) = (if c \<noteq> d then Some (c, d) else first_difference p q)"
| "first_difference p q = None"

definition IsLessThan :: "string \<Rightarrow> string \<Rightarrow> bool" where
  "IsLessThan px py =
     (if IsStringPrefix py px then False
      else if IsStringPrefix px py then True
      else (case first_difference px py of Some (m, n) \<Rightarrow> m < n | None \<Rightarrow> False))"

definition js_ge :: "string \<Rightarrow> string \<Rightarrow> bool" where
  "js_ge x y = (\<not> IsLessThan x y)"

text \<open>\<^verbatim>\<open>String.prototype.startsWith\<close> from position 0.\<close>

definition startsWith :: "string \<Rightarrow> string \<Rightarrow> bool" where
  "startsWith s p = IsStringPrefix p s"

text \<open>
  An EIP-712 domain object with the two members the module uses; \<^verbatim>\<open>chainId\<close> is \<open>None\<close>
  when the object has no such member.
\<close>

record eip712_domain =
  domain_chainId :: "int option"
  verifyingContract :: address

type_synonym eip712_types = "(string \<times> (string \<times> string) list) list"

type_synonym eip712_message = "(string \<times> string) list"

text \<open>
  The three functions of \<^verbatim>\<open>ethers.TypedDataEncoder\<close> the module calls. They are the
  library's (Keccak-256 over the EIP-712 encoding) and are parameters of the model.
\<close>

record 'h typed_data_encoder =
  hashDomain :: "eip712_domain \<Rightarrow> 'h"
  hashStruct :: "string \<Rightarrow> eip712_types \<Rightarrow> eip712_message \<Rightarrow> 'h"
  hashTypedData :: "eip712_domain \<Rightarrow> eip712_types \<Rightarrow> eip712_message \<Rightarrow> 'h"

record 'h EIP712HashResult =
  domainHash :: 'h
  messageHash :: 'h
  eip712Hash :: 'h
  safeMessage :: "string option"

text \<open>The domain built in lines 50 to 58 of \<^verbatim>\<open>calculateSafeMessageHashes\<close>.\<close>

definition safeMessageDomain :: "address \<Rightarrow> int \<Rightarrow> string \<Rightarrow> eip712_domain" where
  "safeMessageDomain safeAddress chainId' safeVersion =
     (let includeChainId = js_ge safeVersion ''1.3.0''
      in if includeChainId
         then \<lparr>domain_chainId = Some chainId', verifyingContract = safeAddress\<rparr>
         else \<lparr>domain_chainId = None, verifyingContract = safeAddress\<rparr>)"

definition SafeMessage_types :: eip712_types where
  "SafeMessage_types = [(''SafeMessage'', [(''message'', ''bytes'')])]"

text \<open>The version is optional and defaults to \<^verbatim>\<open>"1.4.1"\<close>.\<close>

definition calculateSafeMessageHashes ::
  "'h typed_data_encoder \<Rightarrow> address \<Rightarrow> int \<Rightarrow> string \<Rightarrow> string option \<Rightarrow> 'h EIP712HashResult" where
  "calculateSafeMessageHashes enc safeAddress chainId' messageContent safeVersion' =
     (let safeVersion = (case safeVersion' of None \<Rightarrow> ''1.4.1'' | Some v \<Rightarrow> v);
          domain = safeMessageDomain safeAddress chainId' safeVersion;
          types = SafeMessage_types;
          message = [(''message'', messageContent)]
      in \<lparr>domainHash = hashDomain enc domain,
          messageHash = hashStruct enc ''SafeMessage'' types message,
          eip712Hash = hashTypedData enc domain types message,
          safeMessage = Some messageContent\<rparr>)"

text \<open>
  The same domain in the message page (\<^verbatim>\<open>MessageDetailsClient\<close>), whose version is
  \<^verbatim>\<open>safeInfo.version || "1.4.1"\<close>: an empty version is falsy.
\<close>

definition messageDetailsDomain :: "safe_info \<Rightarrow> int \<Rightarrow> address \<Rightarrow> eip712_domain" where
  "messageDetailsDomain info chainId' safeAddress =
     (let safeVersion = (if version info = [] then ''1.4.1'' else version info)
      in safeMessageDomain safeAddress chainId' safeVersion)"

text \<open>
  \<^verbatim>\<open>calculatePersonalSignHash\<close>. \<^verbatim>\<open>ethers.toUtf8String\<close> (\<open>None\<close> when it throws) and
  \<^verbatim>\<open>ethers.hashMessage\<close> (the EIP-191 hash) are the library's and are parameters.
\<close>

definition calculatePersonalSignHash ::
  "(string \<Rightarrow> string option) \<Rightarrow> (string \<Rightarrow> 'h) \<Rightarrow> string \<Rightarrow> 'h" where
  "calculatePersonalSignHash toUtf8String hashMessage message =
     (let decodedMessage =
            (if startsWith message ''0x'' then
               (case toUtf8String message of Some decoded \<Rightarrow> decoded | None \<Rightarrow> message)
             else message)
      in hashMessage decodedMessage)"

definition example_toUtf8String :: "string \<Rightarrow> string option" where
  "example_toUtf8String s = (if s = ''0x6869'' then Some ''hi'' else None)"

section \<open>Deployment of an undeployed Safe (the useSafe hook)\<close>

datatype step_status = Pending | Running | Success | Failed

text \<open>
  A \<^verbatim>\<open>SafeDeployStep\<close>, with the four members the hook reads and writes; \<open>Failed\<close> is the
  status \<^verbatim>\<open>"error"\<close>, and an absent \<^verbatim>\<open>error\<close> or \<^verbatim>\<open>txHash\<close> is \<open>None\<close>.
\<close>

record safe_deploy_step =
  step :: string
  status :: step_status
  error :: "string option"
  txHash :: "string option"

text \<open>
  Step objects are mutated in place and shared by reference, so they live in a store:
  a reference is an address, \<open>objects\<close> gives the object at an address and \<open>next_ref\<close> is
  the first address not yet allocated. \<open>shown\<close> records what each call of the callback
  \<^verbatim>\<open>setDeploySteps\<close> is given (the steps as they are at the call).
\<close>

type_synonym ref = nat

record deploy_state =
  objects :: "ref \<Rightarrow> safe_deploy_step"
  next_ref :: ref
  shown :: "safe_deploy_step list list"

definition alloc :: "safe_deploy_step \<Rightarrow> deploy_state \<Rightarrow> ref \<times> deploy_state" where
  "alloc v h = (next_ref h, h\<lparr>objects := (objects h)(next_ref h := v), next_ref := Suc (next_ref h)\<rparr>)"

text \<open>
  Modelled from the spec: the template constant \<^verbatim>\<open>DEFAULT_DEPLOY_STEPS\<close> of
  \<^verbatim>\<open>app/utils/constants\<close>, which is not among the sources. The spec gives four steps
  (building the deployment transaction, broadcasting, confirming, verifying), each
  \<^verbatim>\<open>pending\<close> with no error and no transaction hash; the hook names the first
  \<^verbatim>\<open>txCreated\<close>, and the names of the other three, which no source shows, are chosen
  here. The array holds the references 0 to 3, and \<open>module_state\<close> is the store once the
  module is loaded.
\<close>

definition default_step :: "string \<Rightarrow> safe_deploy_step" where
  "default_step name = \<lparr>step = name, status = Pending, error = None, txHash = None\<rparr>"

definition template_steps :: "safe_deploy_step list" where
  "template_steps =
     [default_step ''txCreated'', default_step ''txSent'', default_step ''confirmed'',
      default_step ''deployed'']"

definition DEFAULT_DEPLOY_STEPS :: "ref list" where
  "DEFAULT_DEPLOY_STEPS = [0, 1, 2, 3]"

definition module_state :: deploy_state where
  "module_state =
     \<lparr>objects = (\<lambda>r. template_steps ! (if r < 4 then r else 0)), next_ref = 4, shown = []\<rparr>"

text \<open>\<^verbatim>\<open>DEFAULT_DEPLOY_STEPS.map((step) => ({ ...step }))\<close>: a new object for every step.\<close>

fun copy_steps :: "ref list \<Rightarrow> deploy_state \<Rightarrow> ref list \<times> deploy_state" where
  "copy_steps [] h = ([], h)"
| "copy_steps (r # rs) h =
     (case alloc (objects h r) h of
        (r', h') \<Rightarrow> (case copy_steps rs h' of (rs', h'') \<Rightarrow> (r' # rs', h'')))"

definition set_status :: "ref \<Rightarrow> step_status \<Rightarrow> deploy_state \<Rightarrow> deploy_state" where
  "set_status r s h = h\<lparr>objects := (objects h)(r := (objects h r)\<lparr>status := s\<rparr>)\<rparr>"

definition set_error :: "ref \<Rightarrow> string \<Rightarrow> deploy_state \<Rightarrow> deploy_state" where
  "set_error r m h = h\<lparr>objects := (objects h)(r := (objects h r)\<lparr>error := Some m\<rparr>)\<rparr>"

definition set_txHash :: "ref \<Rightarrow> string \<Rightarrow> deploy_state \<Rightarrow> deploy_state" where
  "set_txHash r t h = h\<lparr>objects := (objects h)(r := (objects h r)\<lparr>txHash := Some t\<rparr>)\<rparr>"

definition setDeploySteps :: "ref list \<Rightarrow> deploy_state \<Rightarrow> deploy_state" where
  "setDeploySteps steps h = h\<lparr>shown := shown h @ [map (objects h) steps]\<rparr>"

text \<open>
  What the awaited calls of one attempt do: each throws (with the message the handler
  captures, \<^verbatim>\<open>err instanceof Error ? err.message : String(err)\<close>) or returns.
\<close>

datatype 'a outcome = Throws string | Returns 'a

text \<open>
  \<open>have_inputs\<close>: the Safe config, connector, signer and chain id are all present.
  \<open>getMinimalEIP1193Provider\<close> returns whether there is a provider. \<open>safe_init\<close> stands for
  the calls from \<^verbatim>\<open>getAddress(signer)\<close> to \<^verbatim>\<open>Safe.init(config)\<close>,
  \<open>createSafeDeploymentTransaction\<close> for that call and \<^verbatim>\<open>getExternalSigner\<close>,
  \<open>sendTransaction\<close> for the broadcast, which returns the digits of a hash of type
  \<^verbatim>\<open>0x${string}\<close>, \<open>isSafeDeployed\<close> for \<^verbatim>\<open>getAddress\<close>, \<^verbatim>\<open>connect\<close> and
  \<^verbatim>\<open>isSafeDeployed\<close>, and \<open>migrate\<close> for \<^verbatim>\<open>addSafe\<close> and \<^verbatim>\<open>removeSafe\<close>.
\<close>

record deploy_env =
  have_inputs :: bool
  getMinimalEIP1193Provider :: "bool outcome"
  safe_init :: "unit outcome"
  createSafeDeploymentTransaction :: "unit outcome"
  sendTransaction :: "string outcome"
  waitForTransactionReceipt :: "unit outcome"
  isSafeDeployed :: "bool outcome"
  migrate :: "unit outcome"

text \<open>A \<^verbatim>\<open>catch\<close> block: the step gets the status error and the message, and the steps are shown.\<close>

definition fail_step :: "ref list \<Rightarrow> nat \<Rightarrow> string \<Rightarrow> deploy_state \<Rightarrow> deploy_state" where
  "fail_step steps i m h =
     setDeploySteps steps (set_error (steps ! i) m (set_status (steps ! i) Failed h))"

text \<open>The fourth \<^verbatim>\<open>try\<close> block: verification, migration of the local record, and its \<^verbatim>\<open>catch\<close>.\<close>

definition verify_deployed ::
  "deploy_env \<Rightarrow> ref list \<Rightarrow> string \<Rightarrow> deploy_state \<Rightarrow> ref list \<times> deploy_state" where
  "verify_deployed env steps hash h =
     (let caught = (\<lambda>m h'. (steps, setDeploySteps steps
                       (set_txHash (steps ! 3) hash
                          (set_error (steps ! 3) m (set_status (steps ! 3) Failed h')))))
      in case isSafeDeployed env of
           Throws m \<Rightarrow> caught m h
         | Returns isDeployed \<Rightarrow>
             if \<not> isDeployed then caught ''Safe deployment not detected'' h
             else
               (let h1 = setDeploySteps steps
                           (set_txHash (steps ! 3) hash (set_status (steps ! 3) Success h))
                in case migrate env of
                     Throws m \<Rightarrow> caught m h1
                   | Returns u \<Rightarrow> (steps, h1)))"

text \<open>The third \<^verbatim>\<open>try\<close> block: waiting for the receipt, under the guard \<^verbatim>\<open>if (txHash)\<close>.\<close>

definition confirm_sent ::
  "deploy_env \<Rightarrow> ref list \<Rightarrow> string \<Rightarrow> deploy_state \<Rightarrow> ref list \<times> deploy_state" where
  "confirm_sent env steps hash h =
     (if hash \<noteq> [] then
        (case waitForTransactionReceipt env of
           Throws m \<Rightarrow> (steps, fail_step steps 2 m h)
         | Returns u \<Rightarrow>
             verify_deployed env steps hash
               (setDeploySteps steps
                  (set_status (steps ! 3) Running
                     (set_txHash (steps ! 2) hash (set_status (steps ! 2) Success h)))))
      else verify_deployed env steps hash h)"

text \<open>The second \<^verbatim>\<open>try\<close> block: the broadcast.\<close>

definition broadcast ::
  "deploy_env \<Rightarrow> ref list \<Rightarrow> deploy_state \<Rightarrow> ref list \<times> deploy_state" where
  "broadcast env steps h =
     (case sendTransaction env of
        Throws m \<Rightarrow> (steps, fail_step steps 1 m h)
      | Returns digits \<Rightarrow>
          (let hash = ''0x'' @ digits
           in confirm_sent env steps hash
                (setDeploySteps steps
                   (set_status (steps ! 2) Running
                      (set_txHash (steps ! 1) hash (set_status (steps ! 1) Success h))))))"

text \<open>
  \<^verbatim>\<open>deployUndeployedSafe\<close>: the steps it returns and the store afterwards. An exception
  outside the inner \<^verbatim>\<open>try\<close> blocks reaches the outer \<^verbatim>\<open>catch\<close>, which fails the first step.
\<close>

definition deployUndeployedSafe :: "deploy_env \<Rightarrow> deploy_state \<Rightarrow> ref list \<times> deploy_state" where
  "deployUndeployedSafe env h =
     (if \<not> have_inputs env then
        (case alloc \<lparr>step = ''txCreated'', status = Failed,
                     error = Some ''Missing Safe config, wallet connector, signer, or chainId.'',
                     txHash = None\<rparr> h of
           (r, h') \<Rightarrow> ([r], h'))
      else
        (case copy_steps DEFAULT_DEPLOY_STEPS h of
           (steps, h0) \<Rightarrow>
             (let h1 = setDeploySteps steps (set_status (steps ! 0) Running h0)
              in case getMinimalEIP1193Provider env of
                   Throws m \<Rightarrow> (steps, fail_step steps 0 m h1)
                 | Returns provider \<Rightarrow>
                     if \<not> provider then (steps, fail_step steps 0 ''No provider found'' h1)
                     else
                       (case safe_init env of
                          Throws m \<Rightarrow> (steps, fail_step steps 0 m h1)
                        | Returns u \<Rightarrow>
                            (case createSafeDeploymentTransaction env of
                               Throws m \<Rightarrow> (steps, fail_step steps 0 m h1)
                             | Returns u' \<Rightarrow>
                                 broadcast env steps
                                   (setDeploySteps steps
                                      (set_status (steps ! 1) Running
                                         (set_status (steps ! 0) Success h1))))))))"

text \<open>The steps an attempt returns, as values.\<close>

definition returned_steps :: "ref list \<times> deploy_state \<Rightarrow> safe_deploy_step list" where
  "returned_steps res = map (objects (snd res)) (fst res)"

definition ok_env :: deploy_env where
  "ok_env =
     \<lparr>have_inputs = True, getMinimalEIP1193Provider = Returns True, safe_init = Returns (),
      createSafeDeploymentTransaction = Returns (), sendTransaction = Returns ''abc123'',
      waitForTransactionReceipt = Returns (), isSafeDeployed = Returns True, migrate = Returns ()\<rparr>"

section \<open>Notions the deployment properties are stated with\<close>

text \<open>
  The first thing that goes wrong in an attempt whose inputs are present: the index of
  the step at which it happens and the message captured; \<open>None\<close> when nothing goes wrong.
  A missing provider and an undetected deployment count, with the messages the hook
  gives them.
\<close>

definition failure_of :: "deploy_env \<Rightarrow> (nat \<times> string) option" where
  "failure_of env =
     (case getMinimalEIP1193Provider env of
        Throws m \<Rightarrow> Some (0, m)
      | Returns provider \<Rightarrow>
          if \<not> provider then Some (0, ''No provider found'')
          else (case safe_init env of
             Throws m \<Rightarrow> Some (0, m)
           | Returns u \<Rightarrow>
          (case createSafeDeploymentTransaction env of
             Throws m \<Rightarrow> Some (0, m)
           | Returns u \<Rightarrow>
          (case sendTransaction env of
             Throws m \<Rightarrow> Some (1, m)
           | Returns digits \<Rightarrow>
          (case waitForTransactionReceipt env of
             Throws m \<Rightarrow> Some (2, m)
           | Returns u \<Rightarrow>
          (case isSafeDeployed env of
             Throws m \<Rightarrow> Some (3, m)
           | Returns isDeployed \<Rightarrow>
               if \<not> isDeployed then Some (3, ''Safe deployment not detected'')
               else (case migrate env of
                  Throws m \<Rightarrow> Some (3, m)
                | Returns u \<Rightarrow> None)))))))"

text \<open>The hash the broadcast returned, if it returned.\<close>

definition sent_hash :: "deploy_env \<Rightarrow> string option" where
  "sent_hash env =
     (case sendTransaction env of Throws m \<Rightarrow> None | Returns digits \<Rightarrow> Some (''0x'' @ digits))"

text \<open>The template is in the store as the module created it.\<close>

definition template_intact :: "deploy_state \<Rightarrow> bool" where
  "template_intact h \<longleftrightarrow>
     map (objects h) DEFAULT_DEPLOY_STEPS = template_steps \<and> 4 \<le> next_ref h"

definition outcome_steps :: "deploy_env \<Rightarrow> safe_deploy_step list" where
  "outcome_steps env =
     map (\<lambda>i. case failure_of env of
                None \<Rightarrow>
                  (template_steps ! i)
                    \<lparr>status := Success, txHash := (if i = 0 then None else sent_hash env)\<rparr>
              | Some (k, m) \<Rightarrow>
                  if i < k then
                    (template_steps ! i)
                      \<lparr>status := Success, txHash := (if i = 0 then None else sent_hash env)\<rparr>
                  else if i = k then
                    (template_steps ! i)
                      \<lparr>status := Failed, error := Some m,
                       txHash := (if k = 3 then sent_hash env else None)\<rparr>
                  else template_steps ! i)
       [0, 1, 2, 3]"

section \<open>Properties of the nonce arbitration\<close>




section \<open>Properties of the pending transaction store\<close>

lemma findIndex_None_iff: "findIndex P xs = None \<longleftrightarrow> (\<forall>x\<in>set xs. \<not> P x)"
  by (induction xs) auto

lemma findIndex_SomeD:
  "findIndex P xs = Some i \<Longrightarrow> i < length xs \<and> P (xs ! i) \<and> (\<forall>j<i. \<not> P (xs ! j))"
proof (induction xs arbitrary: i)
  case Nil
  then show ?case by simp
next
  case (Cons x xs)
  show ?case
  proof (cases "P x")
    case True
    with Cons.prems show ?thesis by simp
  next
    case False
    with Cons.prems obtain k where k: "findIndex P xs = Some k" "i = Suc k" by auto
    from Cons.IH [OF k(1)] False k(2) show ?thesis
      by (auto simp: nth_Cons split: nat.splits)
  qed
qed





lemma sort_by_Cons: "sort_by le (x # xs) = insort_by le x (sort_by le xs)"
  by (simp add: sort_by_def)



text \<open>A sorted array is left as it is: the sort is stable.\<close>

lemma sort_by_sorted: "sorted_wrt le xs \<Longrightarrow> sort_by le xs = xs"
proof (induction xs)
  case Nil
  then show ?case by (simp add: sort_by_def)
next
  case (Cons x xs)
  then have "sort_by le xs = xs" "\<forall>a\<in>set xs. le x a" by simp_all
  then show ?case unfolding sort_by_Cons by (cases xs) simp_all
qed

text \<open>When every nonce converts, the sort is the stable sort by the converted nonces.\<close>

lemma insort_by_insort_key:
  assumes "Number (nonce_of x) \<noteq> None" "\<forall>t\<in>set ys. Number (nonce_of t) \<noteq> None"
  shows "insort_by (in_order Number) x ys = insort_key (\<lambda>t. the (Number (nonce_of t))) x ys"
  using assms by (induction ys) (auto simp: in_order_def)

lemma sort_by_sort_key:
  assumes "\<forall>t\<in>set xs. Number (nonce_of t) \<noteq> None"
  shows "sort_by (in_order Number) xs = sort_key (\<lambda>t. the (Number (nonce_of t))) xs"
  using assms
proof (induction xs)
  case Nil
  then show ?case by (simp add: sort_by_def)
next
  case (Cons x xs)
  then have "sort_by (in_order Number) xs = sort_key (\<lambda>t. the (Number (nonce_of t))) xs" by simp
  moreover have "\<forall>t\<in>set (sort_key (\<lambda>t. the (Number (nonce_of t))) xs). Number (nonce_of t) \<noteq> None"
    using Cons.prems by simp
  ultimately show ?case
    using Cons.prems by (simp add: sort_by_Cons insort_by_insort_key)
qed





text \<open>The sort has a result when every nonce converts.\<close>

lemma js_sort_total:
  "\<forall>t\<in>set xs. Number (nonce_of t) \<noteq> None \<Longrightarrow>
   js_sort Number xs = Some (sort_key (\<lambda>t. the (Number (nonce_of t))) xs)"
  by (simp add: js_sort_def comparator_consistent_def list_all_iff sort_by_sort_key)











text \<open>The two writing operations, as the queue they set.\<close>

lemma saveTransaction_set_queue:
  "saveTransaction strict_equal Number a tx c st =
     map_option (\<lambda>l. set_queue (storeKey a c) l st)
       (js_sort Number
          (case findIndex (\<lambda>t. strict_equal (nonce_of t) (nonce_of tx)) (getAllTransactions a c st) of
             Some i \<Rightarrow> (getAllTransactions a c st)[i := tx]
           | None \<Rightarrow> getAllTransactions a c st @ [tx]))"
  by (simp add: saveTransaction_def set_queue_def getAllTransactions_def Let_def
      split: option.splits)

lemma importTx_set_queue:
  "importTx Number a obj c st =
     (if imported_transactions obj = [] then Some st
      else map_option (\<lambda>l. set_queue (storeKey a c) l st)
             (js_sort Number
                (fold (mergeImported Number) (imported_transactions obj)
                   (getAllTransactions a c st))))"
  by (simp add: importTx_def set_queue_def getAllTransactions_def Let_def split: option.splits)







lemma getAll_set_queue: "getAllTransactions a c (set_queue (storeKey a c) l st) = l"
  by (simp add: getAllTransactions_def set_queue_def persist_def)

lemma set_queue_twice: "set_queue k l2 (set_queue k l1 st) = set_queue k l2 st"
  by (cases "localStorage st") (simp_all add: set_queue_def persist_def)

text \<open>The operations return when every nonce involved converts.\<close>

lemma saveTransaction_returns:
  assumes "\<forall>t\<in>set (getAllTransactions a c st). Number (nonce_of t) \<noteq> None"
    and "Number (nonce_of tx) \<noteq> None"
  shows "\<exists>st'. saveTransaction strict_equal Number a tx c st = Some st'"
proof -
  let ?old = "getAllTransactions a c st"
  let ?upd = "case findIndex (\<lambda>t. strict_equal (nonce_of t) (nonce_of tx)) ?old of
                Some i \<Rightarrow> ?old[i := tx] | None \<Rightarrow> ?old @ [tx]"
  have "set ?upd \<subseteq> insert tx (set ?old)"
    using set_update_subset_insert [of ?old _ tx] by (auto split: option.splits)
  with assms have "\<forall>t\<in>set ?upd. Number (nonce_of t) \<noteq> None" by blast
  then have "js_sort Number ?upd \<noteq> None" by (simp add: js_sort_total)
  then show ?thesis unfolding saveTransaction_set_queue by auto
qed

text \<open>The example stores, operation by operation.\<close>

lemma example_nonces:
  "nonce_of imported_7 = JString ''7''" "nonce_of saved_7 = JNumber 7"
  "nonce_of saved_5 = JNumber 5"
  "digit_of CHR ''7'' = Some 7"
  by (simp_all add: imported_7_def saved_7_def saved_5_def example_tx_def digit_of_def)

lemma initial_queue: "getAllTransactions a c initial_store = []"
  by (simp add: getAllTransactions_def initial_store_def)

lemma revive_imported_7:
  "revive \<lparr>stored_data = Some (data imported_7), stored_signatures = None\<rparr> = Some imported_7"
  by (simp add: revive_def imported_7_def example_tx_def)

lemma revive_saved_7: "revive (to_stored saved_7) = Some saved_7"
  by (simp add: revive_def to_stored_def saved_7_def example_tx_def)

lemma import_string_nonce:
  "importTx example_Number ''0xS''
     (Transactions [\<lparr>stored_data = Some (data imported_7), stored_signatures = None\<rparr>])
     (Some ''1'') initial_store = Some string_nonce_store"
  by (simp add: importTx_set_queue imported_transactions_def revive_imported_7 initial_queue
      mergeImported_def js_sort_def comparator_consistent_def sort_by_def string_nonce_store_def
      example_nonces)

lemma save_number_nonce:
  "saveTransaction example_strict_equal example_Number ''0xS'' saved_7 (Some ''1'')
     string_nonce_store = Some two_sevens_store"
  by (simp add: saveTransaction_set_queue string_nonce_store_def two_sevens_store_def
      getAll_set_queue set_queue_twice example_nonces example_strict_equal_def
      js_sort_def comparator_consistent_def sort_by_def in_order_def)

lemma import_number_nonce:
  "importTx example_Number ''0xS'' (Transactions [to_stored saved_7]) (Some ''1'')
     string_nonce_store =
   Some (set_queue (storeKey ''0xS'' (Some ''1'')) [saved_7] initial_store)"
  by (simp add: importTx_set_queue imported_transactions_def revive_saved_7
      string_nonce_store_def getAll_set_queue set_queue_twice mergeImported_def same_number_def
      example_nonces js_sort_def comparator_consistent_def sort_by_def in_order_def)





text \<open>
  C6. The store after an import whose JSON gives the nonce as the string \<^verbatim>\<open>"7"\<close> holds
  that one entry, and its nonce converts to 7. Saving a transaction with nonce 7 does
  not replace the entry: the queue then holds both, the imported one first. Importing
  the saved transaction instead does replace it.
\<close>

theorem save_after_string_nonce_import:
  "importTx example_Number ''0xS''
     (Transactions [\<lparr>stored_data = Some (data imported_7), stored_signatures = None\<rparr>])
     (Some ''1'') initial_store = Some string_nonce_store
   \<and> getAllTransactions ''0xS'' (Some ''1'') string_nonce_store = [imported_7]
   \<and> example_Number (nonce_of imported_7) = Some 7
   \<and> example_Number (nonce_of saved_7) = Some 7
   \<and> map_option (getAllTransactions ''0xS'' (Some ''1''))
        (saveTransaction example_strict_equal example_Number ''0xS'' saved_7 (Some ''1'')
           string_nonce_store) = Some [imported_7, saved_7]
   \<and> map_option (getAllTransactions ''0xS'' (Some ''1''))
        (importTx example_Number ''0xS'' (Transactions [to_stored saved_7]) (Some ''1'')
           string_nonce_store) = Some [saved_7]"
proof -
  have q: "getAllTransactions ''0xS'' (Some ''1'') string_nonce_store = [imported_7]"
    by (simp add: string_nonce_store_def getAll_set_queue)
  have n: "example_Number (nonce_of imported_7) = Some 7"
    "example_Number (nonce_of saved_7) = Some 7"
    by (simp_all add: example_nonces)
  have s: "map_option (getAllTransactions ''0xS'' (Some ''1''))
        (saveTransaction example_strict_equal example_Number ''0xS'' saved_7 (Some ''1'')
           string_nonce_store) = Some [imported_7, saved_7]"
    by (simp add: save_number_nonce two_sevens_store_def getAll_set_queue)
  have i: "map_option (getAllTransactions ''0xS'' (Some ''1''))
        (importTx example_Number ''0xS'' (Transactions [to_stored saved_7]) (Some ''1'')
           string_nonce_store) = Some [saved_7]"
    by (simp add: import_number_nonce getAll_set_queue)
  from import_string_nonce q n s i show ?thesis by (intro conjI)
qed




section \<open>Properties of the owner-management encoding\<close>

lemma findIndex_sits_at:
  "findIndex (\<lambda>ow. toLowerCase ow = toLowerCase a) os = Some i \<Longrightarrow> sits_at a os i"
  unfolding sits_at_def by (drule findIndex_SomeD) simp

lemma findIndex_found:
  "\<exists>ow\<in>set os. P ow \<Longrightarrow> \<exists>i. findIndex P os = Some i"
  using findIndex_None_iff [of P os] by (cases "findIndex P os") auto

lemma filter_index_above: "k < n \<Longrightarrow> filter_index (\<lambda>i. i \<noteq> k) n xs = xs"
  by (induction xs arbitrary: n) simp_all

lemma filter_index_delete:
  "findIndex (\<lambda>ow. toLowerCase ow = toLowerCase a) os = Some i \<Longrightarrow>
   filter_index (\<lambda>j. j \<noteq> n + i) n os = delete_owner a os"
proof (induction os arbitrary: i n)
  case Nil
  then show ?case by simp
next
  case (Cons ow os)
  show ?case
  proof (cases "toLowerCase ow = toLowerCase a")
    case True
    with Cons.prems have "i = 0" by simp
    with True show ?thesis by (simp add: filter_index_above)
  next
    case False
    with Cons.prems obtain k where k: "findIndex (\<lambda>ow. toLowerCase ow = toLowerCase a) os = Some k"
      and i: "i = Suc k" by auto
    from Cons.IH [OF k, of "Suc n"] False i show ?thesis by simp
  qed
qed

lemma filter_index_delete0:
  "findIndex (\<lambda>ow. toLowerCase ow = toLowerCase a) os = Some i \<Longrightarrow>
   filter_index (\<lambda>j. j \<noteq> i) 0 os = delete_owner a os"
  using filter_index_delete [of a os i 0] by simp

lemma set_delete_owner: "set (delete_owner a os) \<subseteq> set os"
  by (induction os) auto

lemma owners_after_Nil: "owners_after os [] = os"
  by (simp add: owners_after_def)

lemma owners_after_Cons: "owners_after os (a # as) = owners_after (delete_owner a os) as"
  by (simp add: owners_after_def)

text \<open>The removal loop, call by call.\<close>

lemma removal_loop_calls:
  "removal_loop sa thr rs (txs0, os) = Inr (txs, os') \<Longrightarrow>
   os' = owners_after os (map address rs) \<and>
   length txs = length txs0 + length rs \<and>
   take (length txs0) txs = txs0 \<and>
   (\<forall>k<length rs. \<exists>i.
      sits_at (address (rs ! k)) (owners_after os (map address (take k rs))) i \<and>
      txs ! (length txs0 + k) =
        safe_call_tx sa (removeOwner
          (prev_owner (owners_after os (map address (take k rs))) i) (address (rs ! k)) thr))"
proof (induction rs arbitrary: txs0 os)
  case Nil
  then show ?case by (simp add: owners_after_Nil)
next
  case (Cons r rs)
  from Cons.prems obtain i where i: "findIndex (\<lambda>ow. toLowerCase ow = toLowerCase (address r)) os = Some i"
    by (cases "findIndex (\<lambda>ow. toLowerCase ow = toLowerCase (address r)) os") auto
  let ?tx = "safe_call_tx sa (removeOwner (prev_owner os i) (address r) thr)"
  from Cons.prems i have rec: "removal_loop sa thr rs (txs0 @ [?tx], delete_owner (address r) os) = Inr (txs, os')"
    by (simp add: filter_index_delete0 prev_owner_def)
  note IH = Cons.IH [OF rec]
  from IH have o: "os' = owners_after os (map address (r # rs))"
    by (simp add: owners_after_Cons)
  from IH have len: "length txs = length txs0 + length (r # rs)" by simp
  from IH have tk: "take (Suc (length txs0)) txs = txs0 @ [?tx]" by simp
  have "take (length txs0) (take (Suc (length txs0)) txs) = txs0"
    by (simp only: tk) simp
  then have tk0: "take (length txs0) txs = txs0" by simp
  from tk len have hd: "txs ! length txs0 = ?tx"
    by (metis lessI nth_append_length nth_take)
  have calls: "\<exists>j. sits_at (address ((r # rs) ! k)) (owners_after os (map address (take k (r # rs)))) j \<and>
      txs ! (length txs0 + k) =
        safe_call_tx sa (removeOwner
          (prev_owner (owners_after os (map address (take k (r # rs)))) j) (address ((r # rs) ! k)) thr)"
    if k: "k < length (r # rs)" for k
  proof (cases k)
    case 0
    with hd findIndex_sits_at [OF i] show ?thesis by (auto simp: owners_after_Nil)
  next
    case (Suc k')
    with k have "k' < length rs" by simp
    with IH obtain j where
      "sits_at (address (rs ! k')) (owners_after (delete_owner (address r) os) (map address (take k' rs))) j"
      "txs ! (length (txs0 @ [?tx]) + k') =
        safe_call_tx sa (removeOwner
          (prev_owner (owners_after (delete_owner (address r) os) (map address (take k' rs))) j)
          (address (rs ! k')) thr)"
      by blast
    with Suc show ?thesis by (auto simp: owners_after_Cons)
  qed
  from o len tk0 calls show ?case by blast
qed

lemma addition_loop_calls:
  "addition_loop sa thr as (txs0, os) =
     (txs0 @ map (\<lambda>c. safe_call_tx sa (addOwnerWithThreshold (address c) thr)) as,
      os @ map address as)"
  by (induction as arbitrary: txs0 os) simp_all

lemma removal_loop_body:
  "removal_loop sa thr rs (txs0, os) = Inr (txs, os') \<Longrightarrow>
   \<exists>new. txs = txs0 @ new \<and> length new = length rs \<and>
     (\<forall>t\<in>set new. \<exists>p a. t = safe_call_tx sa (removeOwner p a thr))"
proof (induction rs arbitrary: txs0 os)
  case Nil
  then show ?case by simp
next
  case (Cons r rs)
  from Cons.prems obtain i where i: "findIndex (\<lambda>ow. toLowerCase ow = toLowerCase (address r)) os = Some i"
    by (cases "findIndex (\<lambda>ow. toLowerCase ow = toLowerCase (address r)) os") auto
  let ?tx = "safe_call_tx sa (removeOwner (prev_owner os i) (address r) thr)"
  from Cons.prems i have "removal_loop sa thr rs (txs0 @ [?tx], delete_owner (address r) os) = Inr (txs, os')"
    by (simp add: filter_index_delete0 prev_owner_def)
  from Cons.IH [OF this] obtain new where new: "txs = (txs0 @ [?tx]) @ new" "length new = length rs"
    "\<forall>t\<in>set new. \<exists>p a. t = safe_call_tx sa (removeOwner p a thr)" by blast
  have "txs = txs0 @ (?tx # new)" using new(1) by simp
  moreover have "length (?tx # new) = length (r # rs)" using new(2) by simp
  moreover have "\<forall>t\<in>set (?tx # new). \<exists>p a. t = safe_call_tx sa (removeOwner p a thr)"
    using new(3) by auto
  ultimately show ?case by blast
qed

lemma removal_loop_not_found:
  "\<exists>c\<in>set rs. \<forall>ow\<in>set os. toLowerCase ow \<noteq> toLowerCase (address c) \<Longrightarrow>
   \<exists>c\<in>set rs. removal_loop sa thr rs (txs0, os) = Inl (OwnerAddressNotFound (address c))"
proof (induction rs arbitrary: txs0 os)
  case Nil
  then show ?case by simp
next
  case (Cons r rs)
  show ?case
  proof (cases "findIndex (\<lambda>ow. toLowerCase ow = toLowerCase (address r)) os")
    case None
    then show ?thesis by simp
  next
    case (Some i)
    then have "\<exists>ow\<in>set os. toLowerCase ow = toLowerCase (address r)"
      using findIndex_None_iff [of "\<lambda>ow. toLowerCase ow = toLowerCase (address r)" os] by auto
    with Cons.prems obtain c where c: "c \<in> set rs" "\<forall>ow\<in>set os. toLowerCase ow \<noteq> toLowerCase (address c)"
      by auto
    with set_delete_owner [of "address r" os]
    have "\<exists>c\<in>set rs. \<forall>ow\<in>set (delete_owner (address r) os). toLowerCase ow \<noteq> toLowerCase (address c)"
      by blast
    from Cons.IH [OF this] obtain c' where "c' \<in> set rs"
      "removal_loop sa thr rs
         (txs0 @ [safe_call_tx sa (removeOwner (prev_owner os i) (address r) thr)],
          delete_owner (address r) os) = Inl (OwnerAddressNotFound (address c'))"
      by blast
    with Some show ?thesis by (auto simp: filter_index_delete0 prev_owner_def)
  qed
qed

text \<open>The two branches of the batched function, with \<^verbatim>\<open>safeInfo\<close> loaded.\<close>

lemma batched_swap:
  assumes "filter (\<lambda>c. type c = Remove) changes = [r]" "filter (\<lambda>c. type c = Add) changes = [ad]"
  shows "createBatchedOwnerManagementTransaction (Some info) sa changes nt =
     Some (case findIndex (\<lambda>ow. toLowerCase ow = toLowerCase (address r)) (owners info) of
             None \<Rightarrow> Inl (OwnerAddressNotFound (address r))
           | Some i \<Rightarrow>
               Inr (safe_call_tx sa (swapOwner (prev_owner (owners info) i) (address r) (address ad))
                    # (if nt \<noteq> threshold info then [safe_call_tx sa (changeThreshold nt)] else [])))"
  using assms
  by (simp add: createBatchedOwnerManagementTransaction_def prev_owner_def split: option.splits)

lemma batched_loops:
  assumes "\<not> (length (filter (\<lambda>c. type c = Remove) changes) = 1 \<and>
              length (filter (\<lambda>c. type c = Add) changes) = 1)"
  shows "createBatchedOwnerManagementTransaction (Some info) sa changes nt =
     Some (case removal_loop sa (threshold info) (filter (\<lambda>c. type c = Remove) changes)
                  ([], owners info) of
             Inl e \<Rightarrow> Inl e
           | Inr (txs, os) \<Rightarrow>
               Inr (txs
                    @ map (\<lambda>c. safe_call_tx sa (addOwnerWithThreshold (address c) (threshold info)))
                        (filter (\<lambda>c. type c = Add) changes)
                    @ (if nt \<noteq> threshold info then [safe_call_tx sa (changeThreshold nt)] else [])))"
  using assms
  by (auto simp: createBatchedOwnerManagementTransaction_def addition_loop_calls
      split: sum.splits prod.splits)

lemmas owner_eval =
  createBatchedOwnerManagementTransaction_def createRemoveOwnerTransaction_def abc_info_def
  example_info_def ownerA_def ownerB_def ownerC_def ownerD_def safeS_def toLowerCase_def
  safe_call_tx_def SENTINEL_OWNERS_def

lemma abc_swap:
  "createBatchedOwnerManagementTransaction (Some abc_info) safeS
     [\<lparr>type = Remove, address = ownerB\<rparr>, \<lparr>type = Add, address = ownerD\<rparr>] 2 =
   Some (Inr [safe_call_tx safeS (swapOwner ownerA ownerB ownerD)])"
  by (simp add: owner_eval)

lemma abc_remove_two:
  "createBatchedOwnerManagementTransaction (Some abc_info) safeS
     [\<lparr>type = Remove, address = ownerA\<rparr>, \<lparr>type = Remove, address = ownerB\<rparr>] 1 =
   Some (Inr [safe_call_tx safeS (removeOwner SENTINEL_OWNERS ownerA 2),
              safe_call_tx safeS (removeOwner SENTINEL_OWNERS ownerB 2),
              safe_call_tx safeS (changeThreshold 1)])"
  by (simp add: owner_eval)

text \<open>
  C2. With the account snapshot loaded, a change set with exactly one removal and exactly
  one addition, whose removed address is among the current owners (up to letter case),
  yields the single call \<^verbatim>\<open>swapOwner(prevOwner, oldOwner, newOwner)\<close>, followed only by the
  threshold change when the threshold changes: one \<^verbatim>\<open>swapOwner\<close> call and no
  \<^verbatim>\<open>removeOwner\<close> or \<^verbatim>\<open>addOwnerWithThreshold\<close> call.
\<close>

theorem single_swap_call:
  assumes "filter (\<lambda>c. type c = Remove) changes = [r]"
    and "filter (\<lambda>c. type c = Add) changes = [ad]"
    and "\<exists>ow\<in>set (owners info). toLowerCase ow = toLowerCase (address r)"
  shows "\<exists>i txs.
      sits_at (address r) (owners info) i
      \<and> createBatchedOwnerManagementTransaction (Some info) sa changes nt = Some (Inr txs)
      \<and> txs = safe_call_tx sa
                (swapOwner (if i = 0 then SENTINEL_OWNERS else owners info ! (i - 1))
                   (address r) (address ad))
              # (if nt \<noteq> threshold info then [safe_call_tx sa (changeThreshold nt)] else [])
      \<and> length (filter (\<lambda>t. is_swapOwner (call_data t)) txs) = 1
      \<and> (\<forall>t\<in>set txs. \<not> is_removeOwner (call_data t) \<and> \<not> is_addOwnerWithThreshold (call_data t))"
proof -
  from findIndex_found [OF assms(3)]
  obtain i where i: "findIndex (\<lambda>ow. toLowerCase ow = toLowerCase (address r)) (owners info) = Some i" ..
  let ?txs = "safe_call_tx sa
                (swapOwner (if i = 0 then SENTINEL_OWNERS else owners info ! (i - 1))
                   (address r) (address ad))
              # (if nt \<noteq> threshold info then [safe_call_tx sa (changeThreshold nt)] else [])"
  have a: "sits_at (address r) (owners info) i" using i by (rule findIndex_sits_at)
  have b: "createBatchedOwnerManagementTransaction (Some info) sa changes nt = Some (Inr ?txs)"
    unfolding batched_swap [OF assms(1,2)] i by (simp add: prev_owner_def)
  have c: "length (filter (\<lambda>t. is_swapOwner (call_data t)) ?txs) = 1"
    by (simp add: safe_call_tx_def)
  have d: "\<forall>t\<in>set ?txs. \<not> is_removeOwner (call_data t) \<and> \<not> is_addOwnerWithThreshold (call_data t)"
    by (simp add: safe_call_tx_def)
  show ?thesis
  proof (intro exI conjI)
    show "sits_at (address r) (owners info) i" by (rule a)
    show "createBatchedOwnerManagementTransaction (Some info) sa changes nt = Some (Inr ?txs)"
      by (rule b)
    show "?txs = ?txs" by (rule refl)
    show "length (filter (\<lambda>t. is_swapOwner (call_data t)) ?txs) = 1" by (rule c)
    show "\<forall>t\<in>set ?txs. \<not> is_removeOwner (call_data t) \<and> \<not> is_addOwnerWithThreshold (call_data t)"
      by (rule d)
  qed
qed

theorem single_swap_call_witness:
  "filter (\<lambda>c. type c = Remove) [\<lparr>type = Remove, address = ownerB\<rparr>, \<lparr>type = Add, address = ownerD\<rparr>]
     = [\<lparr>type = Remove, address = ownerB\<rparr>]
   \<and> filter (\<lambda>c. type c = Add) [\<lparr>type = Remove, address = ownerB\<rparr>, \<lparr>type = Add, address = ownerD\<rparr>]
     = [\<lparr>type = Add, address = ownerD\<rparr>]
   \<and> (\<exists>ow\<in>set (owners abc_info). toLowerCase ow = toLowerCase ownerB)
   \<and> (\<exists>i. sits_at ownerB (owners abc_info) i
        \<and> createBatchedOwnerManagementTransaction (Some abc_info) safeS
             [\<lparr>type = Remove, address = ownerB\<rparr>, \<lparr>type = Add, address = ownerD\<rparr>] 2 =
           Some (Inr [safe_call_tx safeS
                        (swapOwner (if i = 0 then SENTINEL_OWNERS else owners abc_info ! (i - 1))
                           ownerB ownerD)]))
   \<and> createBatchedOwnerManagementTransaction (Some abc_info) safeS
        [\<lparr>type = Remove, address = ownerB\<rparr>, \<lparr>type = Add, address = ownerD\<rparr>] 2 =
      Some (Inr [safe_call_tx safeS (swapOwner ownerA ownerB ownerD)])"
proof -
  let ?rm = "\<lparr>type = Remove, address = ownerB\<rparr>"
  let ?ad = "\<lparr>type = Add, address = ownerD\<rparr>"
  have f1: "filter (\<lambda>c. type c = Remove) [?rm, ?ad] = [?rm]" by simp
  have f2: "filter (\<lambda>c. type c = Add) [?rm, ?ad] = [?ad]" by simp
  have "ownerB \<in> set (owners abc_info)" by (simp add: abc_info_def example_info_def)
  then have f3': "\<exists>ow\<in>set (owners abc_info). toLowerCase ow = toLowerCase ownerB" by (rule bexI [rotated]) simp
  then have f3: "\<exists>ow\<in>set (owners abc_info). toLowerCase ow = toLowerCase (address ?rm)" by simp
  have t2: "threshold abc_info = 2" by (simp add: abc_info_def example_info_def)
  from single_swap_call [OF f1 f2 f3, of safeS 2]
  obtain i txs where "sits_at ownerB (owners abc_info) i"
    "createBatchedOwnerManagementTransaction (Some abc_info) safeS [?rm, ?ad] 2 = Some (Inr txs)"
    "txs = [safe_call_tx safeS
              (swapOwner (if i = 0 then SENTINEL_OWNERS else owners abc_info ! (i - 1)) ownerB ownerD)]"
    unfolding t2 by auto
  then have f4: "\<exists>i. sits_at ownerB (owners abc_info) i
        \<and> createBatchedOwnerManagementTransaction (Some abc_info) safeS [?rm, ?ad] 2 =
           Some (Inr [safe_call_tx safeS
                        (swapOwner (if i = 0 then SENTINEL_OWNERS else owners abc_info ! (i - 1))
                           ownerB ownerD)])"
    by (intro exI [of _ i]) simp
  from f1 f2 f3' f4 abc_swap show ?thesis by (intro conjI)
qed

text \<open>An owner sits at the index the lookup finds, and a lookup of a present owner succeeds.\<close>

lemma sits_at_findIndex:
  assumes "sits_at a os i"
  shows "findIndex (\<lambda>ow. toLowerCase ow = toLowerCase a) os = Some i"
proof -
  from assms have i: "i < length os" "toLowerCase (os ! i) = toLowerCase a"
    "\<forall>j<i. toLowerCase (os ! j) \<noteq> toLowerCase a"
    by (simp_all add: sits_at_def)
  from i(1) have "os ! i \<in> set os" by simp
  with i(2) have "\<exists>ow\<in>set os. toLowerCase ow = toLowerCase a" by blast
  from findIndex_found [OF this] obtain j
    where j: "findIndex (\<lambda>ow. toLowerCase ow = toLowerCase a) os = Some j" ..
  from findIndex_SomeD [OF j] have j': "toLowerCase (os ! j) = toLowerCase a"
    "\<forall>k<j. toLowerCase (os ! k) \<noteq> toLowerCase a" by simp_all
  have "\<not> i < j" using j'(2) i(2) by blast
  moreover have "\<not> j < i" using i(3) j'(1) by blast
  ultimately have "j = i" by simp
  with j show ?thesis by simp
qed

lemma removal_loop_succeeds:
  assumes "\<forall>k<length rs. \<exists>ow\<in>set (owners_after os (map address (take k rs))).
             toLowerCase ow = toLowerCase (address (rs ! k))"
  shows "\<exists>txs os'. removal_loop sa thr rs (txs0, os) = Inr (txs, os')"
  using assms
proof (induction rs arbitrary: txs0 os)
  case Nil
  then show ?case by simp
next
  case (Cons r rs)
  have "0 < length (r # rs)" by simp
  with Cons.prems have "\<exists>ow\<in>set (owners_after os (map address (take 0 (r # rs)))).
             toLowerCase ow = toLowerCase (address ((r # rs) ! 0))" by blast
  then have "\<exists>ow\<in>set os. toLowerCase ow = toLowerCase (address r)"
    by (simp add: owners_after_Nil)
  from findIndex_found [OF this] obtain i
    where i: "findIndex (\<lambda>ow. toLowerCase ow = toLowerCase (address r)) os = Some i" ..
  have rest: "\<forall>k<length rs. \<exists>ow\<in>set (owners_after (delete_owner (address r) os)
                                          (map address (take k rs))).
             toLowerCase ow = toLowerCase (address (rs ! k))"
  proof (intro allI impI)
    fix k assume "k < length rs"
    then have "Suc k < length (r # rs)" by simp
    with Cons.prems have "\<exists>ow\<in>set (owners_after os (map address (take (Suc k) (r # rs)))).
             toLowerCase ow = toLowerCase (address ((r # rs) ! Suc k))" by blast
    then show "\<exists>ow\<in>set (owners_after (delete_owner (address r) os) (map address (take k rs))).
             toLowerCase ow = toLowerCase (address (rs ! k))"
      by (simp add: owners_after_Cons)
  qed
  from Cons.IH [OF rest] obtain txs os' where
    "removal_loop sa thr rs
       (txs0 @ [safe_call_tx sa (removeOwner (prev_owner os i) (address r) thr)],
        delete_owner (address r) os) = Inr (txs, os')"
    by blast
  with i have "removal_loop sa thr (r # rs) (txs0, os) = Inr (txs, os')"
    by (simp add: filter_index_delete0 prev_owner_def)
  then show ?case by blast
qed

lemma abc_remove_last_two:
  "createBatchedOwnerManagementTransaction (Some abc_info) safeS
     [\<lparr>type = Remove, address = ownerB\<rparr>, \<lparr>type = Remove, address = ownerC\<rparr>] 2 =
   Some (Inr [safe_call_tx safeS (removeOwner ownerA ownerB 2),
              safe_call_tx safeS (removeOwner ownerA ownerC 2)])"
  by (simp add: owner_eval)

text \<open>
  C3. Every removal the owner-management functions encode takes as \<^verbatim>\<open>prevOwner\<close> the
  sentinel address when the removed owner sits at index 0 of the owners array it is
  looked up in, and the entry before it otherwise, and the removal of an owner that
  sits in that array is encoded. \<^verbatim>\<open>createRemoveOwnerTransaction\<close> and the swap look the
  owner up in the current owners; the removal loop looks the owner of its \<open>k\<close>-th call up
  in the owners array from which the \<open>k\<close> owners removed before it have been deleted, and
  encodes all its calls when each owner is in the array it is looked up in.
\<close>

theorem removal_prev_owner:
  "(\<forall>i. sits_at a (owners info) i \<longrightarrow>
      createRemoveOwnerTransaction (Some info) sa a nt =
        Some (Inr [safe_call_tx sa
                     (removeOwner (if i = 0 then SENTINEL_OWNERS else owners info ! (i - 1)) a nt)]))
   \<and> (createRemoveOwnerTransaction (Some info) sa a nt = Some (Inr txs) \<longrightarrow>
      (\<exists>i. sits_at a (owners info) i \<and>
         txs = [safe_call_tx sa
                  (removeOwner (if i = 0 then SENTINEL_OWNERS else owners info ! (i - 1)) a nt)]))
   \<and> (filter (\<lambda>c. type c = Remove) changes = [r] \<and> filter (\<lambda>c. type c = Add) changes = [ad] \<longrightarrow>
      (\<forall>i. sits_at (address r) (owners info) i \<longrightarrow>
         (\<exists>txs'. createBatchedOwnerManagementTransaction (Some info) sa changes nt =
                   Some (Inr txs') \<and>
            txs' ! 0 = safe_call_tx sa
                     (swapOwner (if i = 0 then SENTINEL_OWNERS else owners info ! (i - 1))
                        (address r) (address ad)))))
   \<and> (filter (\<lambda>c. type c = Remove) changes = [r] \<and> filter (\<lambda>c. type c = Add) changes = [ad] \<and>
       createBatchedOwnerManagementTransaction (Some info) sa changes nt = Some (Inr txs) \<longrightarrow>
      (\<exists>i. sits_at (address r) (owners info) i \<and>
         txs ! 0 = safe_call_tx sa
                     (swapOwner (if i = 0 then SENTINEL_OWNERS else owners info ! (i - 1))
                        (address r) (address ad))))
   \<and> (\<not> (length (filter (\<lambda>c. type c = Remove) changes) = 1 \<and>
          length (filter (\<lambda>c. type c = Add) changes) = 1) \<and>
       (\<forall>k < length (filter (\<lambda>c. type c = Remove) changes).
          \<exists>ow \<in> set (owners_after (owners info)
                       (map address (take k (filter (\<lambda>c. type c = Remove) changes)))).
            toLowerCase ow = toLowerCase (address (filter (\<lambda>c. type c = Remove) changes ! k))) \<longrightarrow>
      (\<exists>txs'. createBatchedOwnerManagementTransaction (Some info) sa changes nt =
                Some (Inr txs')))
   \<and> (\<not> (length (filter (\<lambda>c. type c = Remove) changes) = 1 \<and>
          length (filter (\<lambda>c. type c = Add) changes) = 1) \<and>
       createBatchedOwnerManagementTransaction (Some info) sa changes nt = Some (Inr txs) \<longrightarrow>
      (\<forall>k < length (filter (\<lambda>c. type c = Remove) changes).
         \<exists>i. sits_at (address (filter (\<lambda>c. type c = Remove) changes ! k))
               (owners_after (owners info)
                  (map address (take k (filter (\<lambda>c. type c = Remove) changes)))) i \<and>
             txs ! k = safe_call_tx sa
               (removeOwner
                  (if i = 0 then SENTINEL_OWNERS
                   else owners_after (owners info)
                          (map address (take k (filter (\<lambda>c. type c = Remove) changes))) ! (i - 1))
                  (address (filter (\<lambda>c. type c = Remove) changes ! k)) (threshold info))))"
proof (intro conjI impI allI)
  fix i assume "sits_at a (owners info) i"
  then have "findIndex (\<lambda>ow. toLowerCase ow = toLowerCase a) (owners info) = Some i"
    by (rule sits_at_findIndex)
  then show "createRemoveOwnerTransaction (Some info) sa a nt =
        Some (Inr [safe_call_tx sa
                     (removeOwner (if i = 0 then SENTINEL_OWNERS else owners info ! (i - 1)) a nt)])"
    by (simp add: createRemoveOwnerTransaction_def)
next
  assume ok: "createRemoveOwnerTransaction (Some info) sa a nt = Some (Inr txs)"
  then obtain i where i: "findIndex (\<lambda>ow. toLowerCase ow = toLowerCase a) (owners info) = Some i"
    by (cases "findIndex (\<lambda>ow. toLowerCase ow = toLowerCase a) (owners info)")
      (simp_all add: createRemoveOwnerTransaction_def)
  with ok have "txs = [safe_call_tx sa
                  (removeOwner (if i = 0 then SENTINEL_OWNERS else owners info ! (i - 1)) a nt)]"
    by (simp add: createRemoveOwnerTransaction_def)
  with findIndex_sits_at [OF i]
  show "\<exists>i. sits_at a (owners info) i \<and>
         txs = [safe_call_tx sa
                  (removeOwner (if i = 0 then SENTINEL_OWNERS else owners info ! (i - 1)) a nt)]"
    by (intro exI [of _ i]) simp
next
  fix i
  assume "filter (\<lambda>c. type c = Remove) changes = [r] \<and> filter (\<lambda>c. type c = Add) changes = [ad]"
  then have f: "filter (\<lambda>c. type c = Remove) changes = [r]" "filter (\<lambda>c. type c = Add) changes = [ad]"
    by simp_all
  assume "sits_at (address r) (owners info) i"
  then have i: "findIndex (\<lambda>ow. toLowerCase ow = toLowerCase (address r)) (owners info) = Some i"
    by (rule sits_at_findIndex)
  let ?txs = "safe_call_tx sa (swapOwner (prev_owner (owners info) i) (address r) (address ad))
                # (if nt \<noteq> threshold info then [safe_call_tx sa (changeThreshold nt)] else [])"
  have "createBatchedOwnerManagementTransaction (Some info) sa changes nt = Some (Inr ?txs)"
    unfolding batched_swap [OF f] i by simp
  moreover have "?txs ! 0 = safe_call_tx sa
                     (swapOwner (if i = 0 then SENTINEL_OWNERS else owners info ! (i - 1))
                        (address r) (address ad))"
    by (simp add: prev_owner_def)
  ultimately show "\<exists>txs'. createBatchedOwnerManagementTransaction (Some info) sa changes nt =
                   Some (Inr txs') \<and>
            txs' ! 0 = safe_call_tx sa
                     (swapOwner (if i = 0 then SENTINEL_OWNERS else owners info ! (i - 1))
                        (address r) (address ad))"
    by (intro exI [of _ ?txs] conjI)
next
  assume "filter (\<lambda>c. type c = Remove) changes = [r] \<and> filter (\<lambda>c. type c = Add) changes = [ad] \<and>
       createBatchedOwnerManagementTransaction (Some info) sa changes nt = Some (Inr txs)"
  then have f: "filter (\<lambda>c. type c = Remove) changes = [r]" "filter (\<lambda>c. type c = Add) changes = [ad]"
    and ok: "createBatchedOwnerManagementTransaction (Some info) sa changes nt = Some (Inr txs)"
    by simp_all
  from ok obtain i where i: "findIndex (\<lambda>ow. toLowerCase ow = toLowerCase (address r)) (owners info) = Some i"
    unfolding batched_swap [OF f]
    by (cases "findIndex (\<lambda>ow. toLowerCase ow = toLowerCase (address r)) (owners info)") simp_all
  from ok have "txs ! 0 = safe_call_tx sa
                     (swapOwner (if i = 0 then SENTINEL_OWNERS else owners info ! (i - 1))
                        (address r) (address ad))"
    unfolding batched_swap [OF f] i by (auto simp: prev_owner_def)
  with findIndex_sits_at [OF i]
  show "\<exists>i. sits_at (address r) (owners info) i \<and>
         txs ! 0 = safe_call_tx sa
                     (swapOwner (if i = 0 then SENTINEL_OWNERS else owners info ! (i - 1))
                        (address r) (address ad))"
    by (intro exI [of _ i]) simp
next
  let ?rs = "filter (\<lambda>c. type c = Remove) changes"
  assume "\<not> (length ?rs = 1 \<and> length (filter (\<lambda>c. type c = Add) changes) = 1) \<and>
       (\<forall>k < length ?rs.
          \<exists>ow \<in> set (owners_after (owners info) (map address (take k ?rs))).
            toLowerCase ow = toLowerCase (address (?rs ! k)))"
  then have ns: "\<not> (length ?rs = 1 \<and> length (filter (\<lambda>c. type c = Add) changes) = 1)"
    and present: "\<forall>k < length ?rs.
          \<exists>ow \<in> set (owners_after (owners info) (map address (take k ?rs))).
            toLowerCase ow = toLowerCase (address (?rs ! k))"
    by simp_all
  from removal_loop_succeeds [OF present] obtain rtxs os where
    "removal_loop sa (threshold info) ?rs ([], owners info) = Inr (rtxs, os)" by blast
  then show "\<exists>txs'. createBatchedOwnerManagementTransaction (Some info) sa changes nt =
                Some (Inr txs')"
    unfolding batched_loops [OF ns] by simp
next
  fix k
  let ?rs = "filter (\<lambda>c. type c = Remove) changes"
  assume "\<not> (length ?rs = 1 \<and> length (filter (\<lambda>c. type c = Add) changes) = 1) \<and>
       createBatchedOwnerManagementTransaction (Some info) sa changes nt = Some (Inr txs)"
  then have ns: "\<not> (length ?rs = 1 \<and> length (filter (\<lambda>c. type c = Add) changes) = 1)"
    and ok: "createBatchedOwnerManagementTransaction (Some info) sa changes nt = Some (Inr txs)"
    by simp_all
  from ok obtain rtxs os where loop: "removal_loop sa (threshold info) ?rs ([], owners info) = Inr (rtxs, os)"
    and txs: "txs = rtxs @ map (\<lambda>c. safe_call_tx sa (addOwnerWithThreshold (address c) (threshold info)))
                        (filter (\<lambda>c. type c = Add) changes)
                    @ (if nt \<noteq> threshold info then [safe_call_tx sa (changeThreshold nt)] else [])"
    unfolding batched_loops [OF ns]
    by (cases "removal_loop sa (threshold info) ?rs ([], owners info)") auto
  note L = removal_loop_calls [OF loop]
  from L have len: "length rtxs = length ?rs" by simp
  assume k: "k < length ?rs"
  with L obtain i where i: "sits_at (address (?rs ! k)) (owners_after (owners info) (map address (take k ?rs))) i"
    "rtxs ! k = safe_call_tx sa (removeOwner
        (prev_owner (owners_after (owners info) (map address (take k ?rs))) i) (address (?rs ! k))
        (threshold info))"
    by auto
  from k len have "txs ! k = rtxs ! k" unfolding txs by (simp add: nth_append)
  with i show "\<exists>i. sits_at (address (?rs ! k)) (owners_after (owners info) (map address (take k ?rs))) i \<and>
           txs ! k = safe_call_tx sa
             (removeOwner
                (if i = 0 then SENTINEL_OWNERS
                 else owners_after (owners info) (map address (take k ?rs)) ! (i - 1))
                (address (?rs ! k)) (threshold info))"
    by (intro exI [of _ i]) (simp add: prev_owner_def)
qed

theorem removal_prev_owner_witness:
  "sits_at ownerC (owners abc_info) 2
   \<and> createRemoveOwnerTransaction (Some abc_info) safeS ownerC 1 =
       Some (Inr [safe_call_tx safeS (removeOwner ownerB ownerC 1)])
   \<and> sits_at ownerA (owners abc_info) 0
   \<and> createRemoveOwnerTransaction (Some abc_info) safeS ownerA 1 =
       Some (Inr [safe_call_tx safeS (removeOwner SENTINEL_OWNERS ownerA 1)])
   \<and> createBatchedOwnerManagementTransaction (Some abc_info) safeS
       [\<lparr>type = Remove, address = ownerB\<rparr>, \<lparr>type = Remove, address = ownerC\<rparr>] 2 =
       Some (Inr [safe_call_tx safeS (removeOwner ownerA ownerB 2),
                  safe_call_tx safeS (removeOwner ownerA ownerC 2)])
   \<and> owners_after (owners abc_info) [ownerB] = [ownerA, ownerC]
   \<and> (\<exists>i. sits_at ownerC [ownerA, ownerC] i \<and>
          safe_call_tx safeS (removeOwner ownerA ownerC 2) =
          safe_call_tx safeS
            (removeOwner (if i = 0 then SENTINEL_OWNERS else [ownerA, ownerC] ! (i - 1)) ownerC 2))
   \<and> \<not> sits_at ownerC [ownerA, ownerC] 0
   \<and> (\<exists>txs. createBatchedOwnerManagementTransaction (Some abc_info) safeS
               [\<lparr>type = Remove, address = ownerB\<rparr>, \<lparr>type = Remove, address = ownerC\<rparr>] 2 =
             Some (Inr txs))
   \<and> (\<exists>txs. createBatchedOwnerManagementTransaction (Some abc_info) safeS
               [\<lparr>type = Remove, address = ownerC\<rparr>, \<lparr>type = Add, address = ownerD\<rparr>] 2 =
             Some (Inr txs) \<and>
           txs ! 0 = safe_call_tx safeS (swapOwner ownerB ownerC ownerD))"
proof -
  let ?ch = "[\<lparr>type = Remove, address = ownerB\<rparr>, \<lparr>type = Remove, address = ownerC\<rparr>]"
  let ?txs = "[safe_call_tx safeS (removeOwner ownerA ownerB 2),
               safe_call_tx safeS (removeOwner ownerA ownerC 2)]"
  have os: "owners abc_info = [ownerA, ownerB, ownerC]" "threshold abc_info = 2"
    by (simp_all add: abc_info_def example_info_def)
  have "findIndex (\<lambda>ow. toLowerCase ow = toLowerCase ownerC) (owners abc_info) = Some 2"
    unfolding os by (simp add: ownerA_def ownerB_def ownerC_def toLowerCase_def)
  then have s2: "sits_at ownerC (owners abc_info) 2" by (rule findIndex_sits_at)
  have "findIndex (\<lambda>ow. toLowerCase ow = toLowerCase ownerA) (owners abc_info) = Some 0"
    unfolding os by simp
  then have s0: "sits_at ownerA (owners abc_info) 0" by (rule findIndex_sits_at)
  have n0: "\<not> sits_at ownerC [ownerA, ownerC] 0"
    by (simp add: sits_at_def ownerA_def ownerC_def toLowerCase_def)
  note batch = removal_prev_owner [where info = abc_info and sa = safeS and txs = ?txs
      and changes = ?ch and nt = 2]
  from removal_prev_owner [where info = abc_info and sa = safeS and a = ownerC and nt = 1] s2
  have "createRemoveOwnerTransaction (Some abc_info) safeS ownerC 1 =
        Some (Inr [safe_call_tx safeS
                     (removeOwner (if (2::nat) = 0 then SENTINEL_OWNERS
                                   else owners abc_info ! (2 - 1)) ownerC 1)])"
    by blast
  then have c2: "createRemoveOwnerTransaction (Some abc_info) safeS ownerC 1 =
       Some (Inr [safe_call_tx safeS (removeOwner ownerB ownerC 1)])"
    unfolding os by simp
  from removal_prev_owner [where info = abc_info and sa = safeS and a = ownerA and nt = 1] s0
  have "createRemoveOwnerTransaction (Some abc_info) safeS ownerA 1 =
        Some (Inr [safe_call_tx safeS
                     (removeOwner (if (0::nat) = 0 then SENTINEL_OWNERS
                                   else owners abc_info ! (0 - 1)) ownerA 1)])"
    by blast
  then have c0: "createRemoveOwnerTransaction (Some abc_info) safeS ownerA 1 =
       Some (Inr [safe_call_tx safeS (removeOwner SENTINEL_OWNERS ownerA 1)])"
    by simp
  have f: "filter (\<lambda>c. type c = Remove) ?ch = ?ch" "filter (\<lambda>c. type c = Add) ?ch = []" by simp_all
  have oa: "owners_after (owners abc_info) [ownerB] = [ownerA, ownerC]"
    unfolding os by (simp add: owners_after_def toLowerCase_def ownerA_def ownerB_def)
  have tk: "map address (take 1 ?ch) = [ownerB]" by simp
  have "\<not> (length (filter (\<lambda>c. type c = Remove) ?ch) = 1 \<and> length (filter (\<lambda>c. type c = Add) ?ch) = 1)
        \<and> createBatchedOwnerManagementTransaction (Some abc_info) safeS ?ch 2 = Some (Inr ?txs)"
    using abc_remove_last_two by simp
  with batch
  have "\<forall>k < length (filter (\<lambda>c. type c = Remove) ?ch).
         \<exists>i. sits_at (address (filter (\<lambda>c. type c = Remove) ?ch ! k))
               (owners_after (owners abc_info)
                  (map address (take k (filter (\<lambda>c. type c = Remove) ?ch)))) i \<and>
             ?txs ! k = safe_call_tx safeS
               (removeOwner
                  (if i = 0 then SENTINEL_OWNERS
                   else owners_after (owners abc_info)
                          (map address (take k (filter (\<lambda>c. type c = Remove) ?ch))) ! (i - 1))
                  (address (filter (\<lambda>c. type c = Remove) ?ch ! k)) (threshold abc_info))"
    by blast
  then have "1 < length (filter (\<lambda>c. type c = Remove) ?ch) \<longrightarrow>
         (\<exists>i. sits_at (address (filter (\<lambda>c. type c = Remove) ?ch ! 1))
               (owners_after (owners abc_info)
                  (map address (take 1 (filter (\<lambda>c. type c = Remove) ?ch)))) i \<and>
             ?txs ! 1 = safe_call_tx safeS
               (removeOwner
                  (if i = 0 then SENTINEL_OWNERS
                   else owners_after (owners abc_info)
                          (map address (take 1 (filter (\<lambda>c. type c = Remove) ?ch))) ! (i - 1))
                  (address (filter (\<lambda>c. type c = Remove) ?ch ! 1)) (threshold abc_info)))"
    by (rule spec)
  then have "\<exists>i. sits_at (address (?ch ! 1)) (owners_after (owners abc_info) (map address (take 1 ?ch))) i \<and>
             ?txs ! 1 = safe_call_tx safeS
               (removeOwner
                  (if i = 0 then SENTINEL_OWNERS
                   else owners_after (owners abc_info) (map address (take 1 ?ch)) ! (i - 1))
                  (address (?ch ! 1)) (threshold abc_info))"
    unfolding f by simp
  then have l: "\<exists>i. sits_at ownerC [ownerA, ownerC] i \<and>
          safe_call_tx safeS (removeOwner ownerA ownerC 2) =
          safe_call_tx safeS
            (removeOwner (if i = 0 then SENTINEL_OWNERS else [ownerA, ownerC] ! (i - 1)) ownerC 2)"
    unfolding tk oa os(2) by simp
  have pres: "\<forall>k < length (filter (\<lambda>c. type c = Remove) ?ch).
          \<exists>ow \<in> set (owners_after (owners abc_info)
                       (map address (take k (filter (\<lambda>c. type c = Remove) ?ch)))).
            toLowerCase ow = toLowerCase (address (filter (\<lambda>c. type c = Remove) ?ch ! k))"
  proof (intro allI impI)
    fix k assume "k < length (filter (\<lambda>c. type c = Remove) ?ch)"
    then have "k = 0 \<or> k = 1" unfolding f by auto
    then show "\<exists>ow \<in> set (owners_after (owners abc_info)
                       (map address (take k (filter (\<lambda>c. type c = Remove) ?ch)))).
            toLowerCase ow = toLowerCase (address (filter (\<lambda>c. type c = Remove) ?ch ! k))"
    proof
      assume "k = 0"
      then show ?thesis unfolding f os by (simp add: owners_after_Nil)
    next
      assume "k = 1"
      then show ?thesis unfolding f tk by (simp add: oa)
    qed
  qed
  with batch have e: "\<exists>txs. createBatchedOwnerManagementTransaction (Some abc_info) safeS ?ch 2 =
             Some (Inr txs)"
    unfolding f by simp
  let ?sw = "[\<lparr>type = Remove, address = ownerC\<rparr>, \<lparr>type = Add, address = ownerD\<rparr>]"
  have fs: "filter (\<lambda>c. type c = Remove) ?sw = [\<lparr>type = Remove, address = ownerC\<rparr>] \<and>
            filter (\<lambda>c. type c = Add) ?sw = [\<lparr>type = Add, address = ownerD\<rparr>]"
    by simp
  have s2': "sits_at (address \<lparr>type = Remove, address = ownerC\<rparr>) (owners abc_info) 2"
    using s2 by simp
  from removal_prev_owner [where info = abc_info and sa = safeS and changes = ?sw and nt = 2
      and r = "\<lparr>type = Remove, address = ownerC\<rparr>" and ad = "\<lparr>type = Add, address = ownerD\<rparr>"]
    fs s2'
  have "\<exists>txs. createBatchedOwnerManagementTransaction (Some abc_info) safeS ?sw 2 =
             Some (Inr txs) \<and>
           txs ! 0 = safe_call_tx safeS
             (swapOwner (if (2::nat) = 0 then SENTINEL_OWNERS else owners abc_info ! (2 - 1))
                (address \<lparr>type = Remove, address = ownerC\<rparr>)
                (address \<lparr>type = Add, address = ownerD\<rparr>))"
    by blast
  then have sw: "\<exists>txs. createBatchedOwnerManagementTransaction (Some abc_info) safeS ?sw 2 =
             Some (Inr txs) \<and>
           txs ! 0 = safe_call_tx safeS (swapOwner ownerB ownerC ownerD)"
    unfolding os by simp
  from s2 c2 s0 c0 abc_remove_last_two oa l n0 e sw show ?thesis by (intro conjI)
qed


lemma batched_body:
  assumes "createBatchedOwnerManagementTransaction (Some info) sa changes nt = Some (Inr txs)"
  shows "\<exists>body. txs = body @ (if nt \<noteq> threshold info then [safe_call_tx sa (changeThreshold nt)] else [])
     \<and> (\<forall>t\<in>set body. \<not> is_changeThreshold (call_data t) \<and>
           (threshold_argument (call_data t) = None \<or>
            threshold_argument (call_data t) = Some (threshold info)))"
proof (cases "length (filter (\<lambda>c. type c = Remove) changes) = 1 \<and>
              length (filter (\<lambda>c. type c = Add) changes) = 1")
  case True
  then obtain r ad where f: "filter (\<lambda>c. type c = Remove) changes = [r]"
    "filter (\<lambda>c. type c = Add) changes = [ad]"
    by (auto simp: length_Suc_conv)
  from assms obtain i where i: "findIndex (\<lambda>ow. toLowerCase ow = toLowerCase (address r)) (owners info) = Some i"
    unfolding batched_swap [OF f]
    by (cases "findIndex (\<lambda>ow. toLowerCase ow = toLowerCase (address r)) (owners info)") simp_all
  let ?body = "[safe_call_tx sa (swapOwner (prev_owner (owners info) i) (address r) (address ad))]"
  from assms have "txs = ?body @ (if nt \<noteq> threshold info then [safe_call_tx sa (changeThreshold nt)] else [])"
    unfolding batched_swap [OF f] i by auto
  moreover have "\<forall>t\<in>set ?body. \<not> is_changeThreshold (call_data t) \<and>
           (threshold_argument (call_data t) = None \<or>
            threshold_argument (call_data t) = Some (threshold info))"
    by (simp add: safe_call_tx_def)
  ultimately show ?thesis by (intro exI [of _ ?body] conjI)
next
  case False
  let ?rs = "filter (\<lambda>c. type c = Remove) changes"
  let ?adds = "map (\<lambda>c. safe_call_tx sa (addOwnerWithThreshold (address c) (threshold info)))
                        (filter (\<lambda>c. type c = Add) changes)"
  from assms obtain rtxs os where loop: "removal_loop sa (threshold info) ?rs ([], owners info) = Inr (rtxs, os)"
    and txs: "txs = rtxs @ ?adds
                    @ (if nt \<noteq> threshold info then [safe_call_tx sa (changeThreshold nt)] else [])"
    unfolding batched_loops [OF False]
    by (cases "removal_loop sa (threshold info) ?rs ([], owners info)") auto
  from removal_loop_body [OF loop]
  have r: "\<forall>t\<in>set rtxs. \<exists>p a. t = safe_call_tx sa (removeOwner p a (threshold info))" by auto
  have "\<forall>t\<in>set (rtxs @ ?adds). \<not> is_changeThreshold (call_data t) \<and>
           (threshold_argument (call_data t) = None \<or>
            threshold_argument (call_data t) = Some (threshold info))"
  proof
    fix t assume "t \<in> set (rtxs @ ?adds)"
    then consider "t \<in> set rtxs" | "t \<in> set ?adds" by auto
    then show "\<not> is_changeThreshold (call_data t) \<and>
           (threshold_argument (call_data t) = None \<or>
            threshold_argument (call_data t) = Some (threshold info))"
    proof cases
      case 1
      with r obtain p a where "t = safe_call_tx sa (removeOwner p a (threshold info))" by blast
      then show ?thesis by (simp add: safe_call_tx_def)
    next
      case 2
      then obtain c :: owner_change
        where "t = safe_call_tx sa (addOwnerWithThreshold (address c) (threshold info))"
        by auto
      then show ?thesis by (simp add: safe_call_tx_def)
    qed
  qed
  moreover have "txs = (rtxs @ ?adds)
      @ (if nt \<noteq> threshold info then [safe_call_tx sa (changeThreshold nt)] else [])"
    using txs by simp
  ultimately show ?thesis by (intro exI [of _ "rtxs @ ?adds"] conjI)
qed

text \<open>
  C4. Whenever the batched function hands a call list to \<^verbatim>\<open>buildSafeTransaction\<close>: if the
  new threshold differs from the current one, the list ends with
  \<^verbatim>\<open>changeThreshold(newThreshold)\<close> and has no other \<^verbatim>\<open>changeThreshold\<close> call; if it does
  not differ, the list has no \<^verbatim>\<open>changeThreshold\<close> call; and every \<^verbatim>\<open>removeOwner\<close> and
  \<^verbatim>\<open>addOwnerWithThreshold\<close> call of the list carries the current threshold. This holds
  for every list of changes, in whatever order they are given.
\<close>

theorem threshold_change_last:
  assumes "createBatchedOwnerManagementTransaction (Some info) sa changes nt = Some (Inr txs)"
  shows "(nt \<noteq> threshold info \<longrightarrow>
            txs \<noteq> [] \<and> last txs = safe_call_tx sa (changeThreshold nt) \<and>
            (\<forall>t\<in>set (butlast txs). \<not> is_changeThreshold (call_data t)))
     \<and> (nt = threshold info \<longrightarrow> (\<forall>t\<in>set txs. \<not> is_changeThreshold (call_data t)))
     \<and> (\<forall>t\<in>set txs.
           is_removeOwner (call_data t) \<or> is_addOwnerWithThreshold (call_data t) \<longrightarrow>
           threshold_argument (call_data t) = Some (threshold info))"
proof -
  from batched_body [OF assms] obtain body where
    txs: "txs = body @ (if nt \<noteq> threshold info then [safe_call_tx sa (changeThreshold nt)] else [])"
    and body: "\<forall>t\<in>set body. \<not> is_changeThreshold (call_data t) \<and>
           (threshold_argument (call_data t) = None \<or>
            threshold_argument (call_data t) = Some (threshold info))"
    by blast
  have a: "nt \<noteq> threshold info \<longrightarrow>
            txs \<noteq> [] \<and> last txs = safe_call_tx sa (changeThreshold nt) \<and>
            (\<forall>t\<in>set (butlast txs). \<not> is_changeThreshold (call_data t))"
    using txs body by simp
  have b: "nt = threshold info \<longrightarrow> (\<forall>t\<in>set txs. \<not> is_changeThreshold (call_data t))"
    using txs body by simp
  have c: "\<forall>t\<in>set txs.
           is_removeOwner (call_data t) \<or> is_addOwnerWithThreshold (call_data t) \<longrightarrow>
           threshold_argument (call_data t) = Some (threshold info)"
  proof (intro ballI impI)
    fix t assume t: "t \<in> set txs"
      and ra: "is_removeOwner (call_data t) \<or> is_addOwnerWithThreshold (call_data t)"
    have "t \<in> set body"
    proof (rule ccontr)
      assume "t \<notin> set body"
      with t txs have "t = safe_call_tx sa (changeThreshold nt)" by (auto split: if_splits)
      with ra show False by (simp add: safe_call_tx_def)
    qed
    with body have "threshold_argument (call_data t) = None \<or>
            threshold_argument (call_data t) = Some (threshold info)" by blast
    with ra show "threshold_argument (call_data t) = Some (threshold info)"
      by (cases "call_data t") auto
  qed
  from a b c show ?thesis by (intro conjI)
qed

theorem threshold_change_last_witness:
  "createBatchedOwnerManagementTransaction (Some abc_info) safeS
     [\<lparr>type = Remove, address = ownerA\<rparr>, \<lparr>type = Remove, address = ownerB\<rparr>] 1 =
   Some (Inr [safe_call_tx safeS (removeOwner SENTINEL_OWNERS ownerA 2),
              safe_call_tx safeS (removeOwner SENTINEL_OWNERS ownerB 2),
              safe_call_tx safeS (changeThreshold 1)])
   \<and> 1 \<noteq> threshold abc_info
   \<and> last [safe_call_tx safeS (removeOwner SENTINEL_OWNERS ownerA 2),
            safe_call_tx safeS (removeOwner SENTINEL_OWNERS ownerB 2),
            safe_call_tx safeS (changeThreshold 1)] = safe_call_tx safeS (changeThreshold 1)
   \<and> threshold_argument (call_data (safe_call_tx safeS (removeOwner SENTINEL_OWNERS ownerB 2))) =
       Some (threshold abc_info)"
proof -
  have t2: "1 \<noteq> threshold abc_info" by (simp add: abc_info_def example_info_def)
  have m: "safe_call_tx safeS (removeOwner SENTINEL_OWNERS ownerB 2) \<in>
      set [safe_call_tx safeS (removeOwner SENTINEL_OWNERS ownerA 2),
           safe_call_tx safeS (removeOwner SENTINEL_OWNERS ownerB 2),
           safe_call_tx safeS (changeThreshold 1)]" by simp
  have r: "is_removeOwner (call_data (safe_call_tx safeS (removeOwner SENTINEL_OWNERS ownerB 2)))"
    by (simp add: safe_call_tx_def)
  from threshold_change_last [OF abc_remove_two] t2 m r abc_remove_two
  show ?thesis by blast
qed

text \<open>
  C9. With the account snapshot loaded: when a change asks to remove an address that is
  not among the current owners (up to letter case), the batched function throws the
  owner-not-found error of some requested removal, and hands nothing to
  \<^verbatim>\<open>buildSafeTransaction\<close>; so does \<^verbatim>\<open>createRemoveOwnerTransaction\<close> for such an address.
  In the dialog, a new threshold below 1 or above the final owner count (owners minus
  removals plus additions) ends \<^verbatim>\<open>handleCreateTransaction\<close> with the threshold alert, and
  \<^verbatim>\<open>onBatchUpdate\<close> is not called, so nothing is encoded.
\<close>

theorem owner_not_found_and_threshold_range:
  "((\<exists>c\<in>set changes. type c = Remove \<and>
        (\<forall>ow\<in>set (owners info). toLowerCase ow \<noteq> toLowerCase (address c))) \<longrightarrow>
      (\<exists>c\<in>set changes. type c = Remove \<and>
         createBatchedOwnerManagementTransaction (Some info) sa changes nt =
           Some (Inl (OwnerAddressNotFound (address c)))))
   \<and> ((\<forall>ow\<in>set (owners info). toLowerCase ow \<noteq> toLowerCase a) \<longrightarrow>
        createRemoveOwnerTransaction (Some info) sa a nt = Some (Inl OwnerNotFound))
   \<and> (newThreshold m < 1 \<or>
       newThreshold m >
         int (length (modal_owners m)) - int (length (ownersToRemove m)) + int (length (ownersToAdd m)) \<longrightarrow>
        handleCreateTransaction m = AlertThresholdRange (finalOwnerCount m) \<and>
        submitOwnerChanges si sa m = Inl (AlertThresholdRange (finalOwnerCount m)))"
proof (intro conjI impI)
  let ?rs = "filter (\<lambda>c. type c = Remove) changes"
  assume "\<exists>c\<in>set changes. type c = Remove \<and>
        (\<forall>ow\<in>set (owners info). toLowerCase ow \<noteq> toLowerCase (address c))"
  then obtain c where c: "c \<in> set ?rs" "\<forall>ow\<in>set (owners info). toLowerCase ow \<noteq> toLowerCase (address c)"
    by auto
  show "\<exists>c\<in>set changes. type c = Remove \<and>
         createBatchedOwnerManagementTransaction (Some info) sa changes nt =
           Some (Inl (OwnerAddressNotFound (address c)))"
  proof (cases "length ?rs = 1 \<and> length (filter (\<lambda>c. type c = Add) changes) = 1")
    case True
    then obtain r ad where f: "?rs = [r]" "filter (\<lambda>c. type c = Add) changes = [ad]"
      by (auto simp: length_Suc_conv)
    with c have cr: "c = r" by simp
    from c(2) have "findIndex (\<lambda>ow. toLowerCase ow = toLowerCase (address c)) (owners info) = None"
      by (simp add: findIndex_None_iff)
    then have "createBatchedOwnerManagementTransaction (Some info) sa changes nt =
           Some (Inl (OwnerAddressNotFound (address c)))"
      unfolding batched_swap [OF f] cr by simp
    moreover from c(1) have "c \<in> set changes" "type c = Remove" by simp_all
    ultimately show ?thesis by (intro bexI [of _ c] conjI)
  next
    case False
    from c have "\<exists>c\<in>set ?rs. \<forall>ow\<in>set (owners info). toLowerCase ow \<noteq> toLowerCase (address c)"
      by (intro bexI [of _ c])
    from removal_loop_not_found [OF this, of sa "threshold info" "[]"]
    obtain c' where c': "c' \<in> set ?rs"
      "removal_loop sa (threshold info) ?rs ([], owners info) = Inl (OwnerAddressNotFound (address c'))"
      by blast
    then have "createBatchedOwnerManagementTransaction (Some info) sa changes nt =
           Some (Inl (OwnerAddressNotFound (address c')))"
      unfolding batched_loops [OF False] by simp
    moreover from c'(1) have "c' \<in> set changes" "type c' = Remove" by simp_all
    ultimately show ?thesis by (intro bexI [of _ c'] conjI)
  qed
next
  assume "\<forall>ow\<in>set (owners info). toLowerCase ow \<noteq> toLowerCase a"
  then have "findIndex (\<lambda>ow. toLowerCase ow = toLowerCase a) (owners info) = None"
    by (simp add: findIndex_None_iff)
  then show "createRemoveOwnerTransaction (Some info) sa a nt = Some (Inl OwnerNotFound)"
    by (simp add: createRemoveOwnerTransaction_def)
next
  assume r: "newThreshold m < 1 \<or>
       newThreshold m >
         int (length (modal_owners m)) - int (length (ownersToRemove m)) + int (length (ownersToAdd m))"
  then show h: "handleCreateTransaction m = AlertThresholdRange (finalOwnerCount m)"
    by (simp add: handleCreateTransaction_def finalOwnerCount_def)
  then show "submitOwnerChanges si sa m = Inl (AlertThresholdRange (finalOwnerCount m))"
    by (simp add: submitOwnerChanges_def)
qed

theorem owner_not_found_and_threshold_range_witness:
  "(\<exists>c\<in>set [\<lparr>type = Remove, address = ownerA\<rparr>, \<lparr>type = Remove, address = ownerD\<rparr>].
       type c = Remove \<and> (\<forall>ow\<in>set (owners abc_info). toLowerCase ow \<noteq> toLowerCase (address c)))
   \<and> (\<exists>c\<in>set [\<lparr>type = Remove, address = ownerA\<rparr>, \<lparr>type = Remove, address = ownerD\<rparr>].
        type c = Remove \<and>
        createBatchedOwnerManagementTransaction (Some abc_info) safeS
          [\<lparr>type = Remove, address = ownerA\<rparr>, \<lparr>type = Remove, address = ownerD\<rparr>] 1 =
        Some (Inl (OwnerAddressNotFound (address c))))
   \<and> createRemoveOwnerTransaction (Some abc_info) safeS ownerD 1 = Some (Inl OwnerNotFound)
   \<and> finalOwnerCount example_modal = 2
   \<and> newThreshold example_modal > finalOwnerCount example_modal
   \<and> handleCreateTransaction example_modal = AlertThresholdRange 2
   \<and> submitOwnerChanges (Some abc_info) safeS example_modal = Inl (AlertThresholdRange 2)"
proof -
  let ?ch = "[\<lparr>type = Remove, address = ownerA\<rparr>, \<lparr>type = Remove, address = ownerD\<rparr>]"
  have nf: "\<forall>ow\<in>set (owners abc_info). toLowerCase ow \<noteq> toLowerCase ownerD"
    by (simp add: abc_info_def example_info_def toLowerCase_def ownerA_def ownerB_def ownerC_def
        ownerD_def)
  then have h1: "\<exists>c\<in>set ?ch. type c = Remove \<and>
      (\<forall>ow\<in>set (owners abc_info). toLowerCase ow \<noteq> toLowerCase (address c))"
    by simp
  have fc: "finalOwnerCount example_modal = 2"
    by (simp add: finalOwnerCount_def example_modal_def)
  have h3: "newThreshold example_modal < 1 \<or>
       newThreshold example_modal >
         int (length (modal_owners example_modal)) - int (length (ownersToRemove example_modal))
         + int (length (ownersToAdd example_modal))"
    by (simp add: example_modal_def)
  have gt: "newThreshold example_modal > finalOwnerCount example_modal"
    by (simp add: fc) (simp add: example_modal_def)
  note T = owner_not_found_and_threshold_range
    [where changes = ?ch and info = abc_info and sa = safeS and nt = 1 and a = ownerD
       and m = example_modal and si = "Some abc_info"]
  from T h1 have c1: "\<exists>c\<in>set ?ch. type c = Remove \<and>
        createBatchedOwnerManagementTransaction (Some abc_info) safeS ?ch 1 =
        Some (Inl (OwnerAddressNotFound (address c)))"
    by blast
  from T nf have c2: "createRemoveOwnerTransaction (Some abc_info) safeS ownerD 1 = Some (Inl OwnerNotFound)"
    by blast
  from T h3 have c3: "handleCreateTransaction example_modal = AlertThresholdRange 2"
    "submitOwnerChanges (Some abc_info) safeS example_modal = Inl (AlertThresholdRange 2)"
    unfolding fc by blast+
  from h1 c1 c2 fc gt c3 show ?thesis by (intro conjI)
qed

section \<open>Properties of the message hashing\<close>

lemma first_difference_None:
  "first_difference p q = None \<Longrightarrow> IsStringPrefix p q \<or> IsStringPrefix q p"
  by (induction p q rule: first_difference.induct) (auto split: if_splits)

lemma IsLessThan_Nil: "IsLessThan [] y \<longleftrightarrow> y \<noteq> []"
  by (cases y) (simp_all add: IsLessThan_def)

lemma IsLessThan_Nil2: "\<not> IsLessThan x []"
  by (simp add: IsLessThan_def)

lemma IsLessThan_Cons:
  "IsLessThan (c # p) (d # q) \<longleftrightarrow> c < d \<or> c = d \<and> IsLessThan p q"
  by (auto simp: IsLessThan_def split: option.splits dest: first_difference_None)

lemma IsLessThan_lex: "IsLessThan x y \<longleftrightarrow> x < y"
proof (induction x arbitrary: y)
  case Nil
  then show ?case by (cases y) (simp_all add: IsLessThan_Nil)
next
  case (Cons c p)
  then show ?case by (cases y) (simp_all add: IsLessThan_Nil2 IsLessThan_Cons)
qed

lemma js_ge_lex: "js_ge x y \<longleftrightarrow> y \<le> x"
  by (simp add: js_ge_def IsLessThan_lex not_less)

text \<open>
  C1. For every Safe address, chain id, message content and version string, the
  SafeMessage domain is \<open>{chainId, verifyingContract}\<close> when the version is at least
  \<^verbatim>\<open>"1.3.0"\<close> in the lexicographic order of strings and \<open>{verifyingContract}\<close> otherwise, and
  it is the domain \<^verbatim>\<open>calculateSafeMessageHashes\<close> hashes (with version \<^verbatim>\<open>"1.4.1"\<close> when none
  is given) and the message page builds. Version \<^verbatim>\<open>"1.4.1"\<close> includes the chain id;
  \<^verbatim>\<open>"1.10.0"\<close>, which is below \<^verbatim>\<open>"1.3.0"\<close> in that order, does not.
\<close>

theorem safe_message_domain_by_version:
  "safeMessageDomain a c v =
     (if ''1.3.0'' \<le> v then \<lparr>domain_chainId = Some c, verifyingContract = a\<rparr>
      else \<lparr>domain_chainId = None, verifyingContract = a\<rparr>)
   \<and> domainHash (calculateSafeMessageHashes enc a c content sv) =
       hashDomain enc (safeMessageDomain a c (case sv of None \<Rightarrow> ''1.4.1'' | Some w \<Rightarrow> w))
   \<and> eip712Hash (calculateSafeMessageHashes enc a c content sv) =
       hashTypedData enc (safeMessageDomain a c (case sv of None \<Rightarrow> ''1.4.1'' | Some w \<Rightarrow> w))
         SafeMessage_types [(''message'', content)]
   \<and> messageDetailsDomain info c a =
       safeMessageDomain a c (if version info = [] then ''1.4.1'' else version info)
   \<and> safeMessageDomain a c ''1.4.1'' = \<lparr>domain_chainId = Some c, verifyingContract = a\<rparr>
   \<and> safeMessageDomain a c ''1.10.0'' = \<lparr>domain_chainId = None, verifyingContract = a\<rparr>
   \<and> ''1.10.0'' < ''1.3.0''"
proof -
  have d: "safeMessageDomain a c v =
     (if ''1.3.0'' \<le> v then \<lparr>domain_chainId = Some c, verifyingContract = a\<rparr>
      else \<lparr>domain_chainId = None, verifyingContract = a\<rparr>)" for v
    by (simp add: safeMessageDomain_def js_ge_lex)
  have h1: "domainHash (calculateSafeMessageHashes enc a c content sv) =
       hashDomain enc (safeMessageDomain a c (case sv of None \<Rightarrow> ''1.4.1'' | Some w \<Rightarrow> w))"
    by (simp add: calculateSafeMessageHashes_def Let_def)
  have h2: "eip712Hash (calculateSafeMessageHashes enc a c content sv) =
       hashTypedData enc (safeMessageDomain a c (case sv of None \<Rightarrow> ''1.4.1'' | Some w \<Rightarrow> w))
         SafeMessage_types [(''message'', content)]"
    by (simp add: calculateSafeMessageHashes_def Let_def)
  have h3: "messageDetailsDomain info c a =
       safeMessageDomain a c (if version info = [] then ''1.4.1'' else version info)"
    by (simp add: messageDetailsDomain_def)
  have e1: "safeMessageDomain a c ''1.4.1'' = \<lparr>domain_chainId = Some c, verifyingContract = a\<rparr>"
    by (simp add: d)
  have e2: "safeMessageDomain a c ''1.10.0'' = \<lparr>domain_chainId = None, verifyingContract = a\<rparr>"
    by (simp add: d)
  have e3: "''1.10.0'' < ''1.3.0''" by simp
  from d [of v] h1 h2 h3 e1 e2 e3 show ?thesis by (intro conjI)
qed

lemma startsWith_0x: "startsWith m ''0x'' \<longleftrightarrow> (\<exists>rest. m = ''0x'' @ rest)"
proof (cases m)
  case Nil
  then show ?thesis by (simp add: startsWith_def)
next
  case (Cons c1 m1)
  then show ?thesis by (cases m1) (auto simp: startsWith_def)
qed

text \<open>
  C8. For every input string: when it begins with \<^verbatim>\<open>0x\<close> and UTF-8 decoding succeeds,
  \<^verbatim>\<open>calculatePersonalSignHash\<close> returns the EIP-191 hash of the decoded string; otherwise
  (no such prefix, or decoding throws) it returns the EIP-191 hash of the input as it is.
  The result is a function of the input alone: equal inputs give equal results.
\<close>

theorem personal_sign_hash_cases:
  "(startsWith m ''0x'' \<longleftrightarrow> (\<exists>rest. m = ''0x'' @ rest))
   \<and> (startsWith m ''0x'' \<and> toUtf8String m = Some decoded \<longrightarrow>
        calculatePersonalSignHash toUtf8String hashMessage m = hashMessage decoded)
   \<and> (\<not> startsWith m ''0x'' \<or> toUtf8String m = None \<longrightarrow>
        calculatePersonalSignHash toUtf8String hashMessage m = hashMessage m)
   \<and> (\<forall>m'. m' = m \<longrightarrow>
        calculatePersonalSignHash toUtf8String hashMessage m' =
        calculatePersonalSignHash toUtf8String hashMessage m)"
  by (auto simp: calculatePersonalSignHash_def startsWith_0x)

theorem personal_sign_hash_cases_witness:
  "startsWith ''0x6869'' ''0x'' \<and> example_toUtf8String ''0x6869'' = Some ''hi''
   \<and> calculatePersonalSignHash example_toUtf8String (\<lambda>s. ''EIP-191 hash of '' @ s) ''0x6869''
       = ''EIP-191 hash of hi''
   \<and> startsWith ''0xzz'' ''0x'' \<and> example_toUtf8String ''0xzz'' = None
   \<and> calculatePersonalSignHash example_toUtf8String (\<lambda>s. ''EIP-191 hash of '' @ s) ''0xzz''
       = ''EIP-191 hash of 0xzz''
   \<and> \<not> startsWith ''hello'' ''0x''
   \<and> calculatePersonalSignHash example_toUtf8String (\<lambda>s. ''EIP-191 hash of '' @ s) ''hello''
       = ''EIP-191 hash of hello''"
proof -
  have s1: "startsWith ''0x6869'' ''0x''" and s2: "startsWith ''0xzz'' ''0x''"
    and s3: "\<not> startsWith ''hello'' ''0x''"
    by (simp_all add: startsWith_def)
  have d1: "example_toUtf8String ''0x6869'' = Some ''hi''"
    and d2: "example_toUtf8String ''0xzz'' = None"
    by (simp_all add: example_toUtf8String_def)
  note T = personal_sign_hash_cases
    [where toUtf8String = example_toUtf8String and hashMessage = "\<lambda>s. ''EIP-191 hash of '' @ s"]
  from T [where m = "''0x6869''" and decoded = "''hi''"] s1 d1
  have c1: "calculatePersonalSignHash example_toUtf8String (\<lambda>s. ''EIP-191 hash of '' @ s) ''0x6869''
       = ''EIP-191 hash of hi''" by simp
  from T [where m = "''0xzz''"] d2
  have c2: "calculatePersonalSignHash example_toUtf8String (\<lambda>s. ''EIP-191 hash of '' @ s) ''0xzz''
       = ''EIP-191 hash of 0xzz''" by simp
  from T [where m = "''hello''"] s3
  have c3: "calculatePersonalSignHash example_toUtf8String (\<lambda>s. ''EIP-191 hash of '' @ s) ''hello''
       = ''EIP-191 hash of hello''" by simp
  from s1 d1 c1 s2 d2 c2 s3 c3 show ?thesis by (intro conjI)
qed

section \<open>Properties of the deployment\<close>

lemma copy_default:
  assumes "4 \<le> next_ref h"
  shows "copy_steps DEFAULT_DEPLOY_STEPS h =
     ([next_ref h, Suc (next_ref h), Suc (Suc (next_ref h)), Suc (Suc (Suc (next_ref h)))],
      h\<lparr>objects := (objects h)
           (next_ref h := objects h 0, Suc (next_ref h) := objects h 1,
            Suc (Suc (next_ref h)) := objects h 2, Suc (Suc (Suc (next_ref h))) := objects h 3),
        next_ref := Suc (Suc (Suc (Suc (next_ref h))))\<rparr>)"
  using assms by (simp add: DEFAULT_DEPLOY_STEPS_def alloc_def)

lemmas deploy_defs =
  deployUndeployedSafe_def broadcast_def confirm_sent_def verify_deployed_def fail_step_def
  setDeploySteps_def set_status_def set_error_def set_txHash_def returned_steps_def

lemma template_objects:
  assumes "template_intact h"
  shows "objects h 0 = default_step ''txCreated''" "objects h 1 = default_step ''txSent''"
    "objects h 2 = default_step ''confirmed''" "objects h 3 = default_step ''deployed''"
    "4 \<le> next_ref h"
  using assms by (simp_all add: template_intact_def DEFAULT_DEPLOY_STEPS_def template_steps_def)

lemma deploy_fresh:
  assumes "template_intact h" "have_inputs env"
  shows "fst (deployUndeployedSafe env h) =
           [next_ref h, Suc (next_ref h), Suc (Suc (next_ref h)), Suc (Suc (Suc (next_ref h)))]"
  using assms(2) template_objects(5) [OF assms(1)]
  by (simp add: deploy_defs copy_default Let_def split: outcome.splits)

lemma deploy_outcome:
  assumes "template_intact h" "have_inputs env"
  shows "returned_steps (deployUndeployedSafe env h) = outcome_steps env"
proof (cases "failure_of env")
  case None
  then have "getMinimalEIP1193Provider env = Returns True" "safe_init env = Returns ()"
    "createSafeDeploymentTransaction env = Returns ()"
    "\<exists>d. sendTransaction env = Returns d" "waitForTransactionReceipt env = Returns ()"
    "isSafeDeployed env = Returns True" "migrate env = Returns ()"
    by (auto simp: failure_of_def split: outcome.splits if_splits)
  with None assms(2) template_objects [OF assms(1)] show ?thesis
    by (auto simp: outcome_steps_def sent_hash_def deploy_defs copy_default Let_def default_step_def
        template_steps_def)
next
  case (Some km)
  obtain k m where km: "km = (k, m)" by (cases km)
  show ?thesis
  proof (cases "getMinimalEIP1193Provider env")
    case (Throws x)
    with Some km assms(2) template_objects [OF assms(1)] show ?thesis
      by (auto simp: failure_of_def outcome_steps_def sent_hash_def deploy_defs copy_default Let_def
          default_step_def template_steps_def)
  next
    case (Returns p)
    note gp = this
    show ?thesis
    proof (cases p)
      case False
      with gp Some km assms(2) template_objects [OF assms(1)] show ?thesis
        by (auto simp: failure_of_def outcome_steps_def sent_hash_def deploy_defs copy_default Let_def
            default_step_def template_steps_def)
    next
      case True
      note p = this
      show ?thesis
      proof (cases "safe_init env")
        case (Throws x)
        with gp p Some km assms(2) template_objects [OF assms(1)] show ?thesis
          by (auto simp: failure_of_def outcome_steps_def sent_hash_def deploy_defs copy_default Let_def
              default_step_def template_steps_def)
      next
        case (Returns u)
        note si = this
        show ?thesis
        proof (cases "createSafeDeploymentTransaction env")
          case (Throws x)
          with gp p si Some km assms(2) template_objects [OF assms(1)] show ?thesis
            by (auto simp: failure_of_def outcome_steps_def sent_hash_def deploy_defs copy_default Let_def
                default_step_def template_steps_def)
        next
          case (Returns u')
          note cr = this
          show ?thesis
          proof (cases "sendTransaction env")
            case (Throws x)
            with gp p si cr Some km assms(2) template_objects [OF assms(1)] show ?thesis
              by (auto simp: failure_of_def outcome_steps_def sent_hash_def deploy_defs copy_default Let_def
                  default_step_def template_steps_def)
          next
            case (Returns d)
            note sd = this
            show ?thesis
            proof (cases "waitForTransactionReceipt env")
              case (Throws x)
              with gp p si cr sd Some km assms(2) template_objects [OF assms(1)] show ?thesis
                by (auto simp: failure_of_def outcome_steps_def sent_hash_def deploy_defs copy_default
                    Let_def default_step_def template_steps_def)
            next
              case (Returns u'')
              note wt = this
              show ?thesis
              proof (cases "isSafeDeployed env")
                case (Throws x)
                with gp p si cr sd wt Some km assms(2) template_objects [OF assms(1)] show ?thesis
                  by (auto simp: failure_of_def outcome_steps_def sent_hash_def deploy_defs copy_default
                      Let_def default_step_def template_steps_def)
              next
                case (Returns dep)
                with gp p si cr sd wt Some km assms(2) template_objects [OF assms(1)] show ?thesis
                  by (cases dep; cases "migrate env")
                    (auto simp: failure_of_def outcome_steps_def sent_hash_def deploy_defs copy_default
                      Let_def default_step_def template_steps_def)
              qed
            qed
          qed
        qed
      qed
    qed
  qed
qed

lemma deploy_frame:
  assumes "4 \<le> next_ref h" "r < next_ref h"
  shows "objects (snd (deployUndeployedSafe env h)) r = objects h r"
  using assms
  by (auto simp: deploy_defs copy_default Let_def alloc_def split: outcome.splits)

lemma deploy_next_ref:
  assumes "4 \<le> next_ref h"
  shows "next_ref h \<le> next_ref (snd (deployUndeployedSafe env h))"
  using assms
  by (auto simp: deploy_defs copy_default Let_def alloc_def split: outcome.splits)

lemma deploy_keeps_template:
  assumes "template_intact h"
  shows "template_intact (snd (deployUndeployedSafe env h))"
proof -
  from assms have n: "4 \<le> next_ref h" by (simp add: template_intact_def)
  have "map (objects (snd (deployUndeployedSafe env h))) DEFAULT_DEPLOY_STEPS =
        map (objects h) DEFAULT_DEPLOY_STEPS"
    using n by (simp add: DEFAULT_DEPLOY_STEPS_def deploy_frame)
  with assms deploy_next_ref [OF n, of env] show ?thesis by (simp add: template_intact_def)
qed

lemma deploy_missing_inputs:
  assumes "\<not> have_inputs env"
  shows "returned_steps (deployUndeployedSafe env h) =
     [\<lparr>step = ''txCreated'', status = Failed,
       error = Some ''Missing Safe config, wallet connector, signer, or chainId.'',
       txHash = None\<rparr>]"
    and "fst (deployUndeployedSafe env h) = [next_ref h]"
  using assms by (simp_all add: deployUndeployedSafe_def returned_steps_def alloc_def)

lemma less_4_cases: "i < (4::nat) \<Longrightarrow> i = 0 \<or> i = 1 \<or> i = 2 \<or> i = 3"
  by arith

lemma template_intact_module: "template_intact module_state"
  by (simp add: template_intact_def module_state_def DEFAULT_DEPLOY_STEPS_def template_steps_def)

text \<open>
  C7, as stated, fails when an input is missing: the guard at the head of
  \<^verbatim>\<open>deployUndeployedSafe\<close> returns one step, \<^verbatim>\<open>txCreated\<close> with status error, which is not
  a copy of the four-step template.
\<close>

theorem deploy_missing_inputs_counterexample:
  "returned_steps (deployUndeployedSafe (ok_env\<lparr>have_inputs := False\<rparr>) module_state) =
     [\<lparr>step = ''txCreated'', status = Failed,
       error = Some ''Missing Safe config, wallet connector, signer, or chainId.'',
       txHash = None\<rparr>]
   \<and> length (fst (deployUndeployedSafe (ok_env\<lparr>have_inputs := False\<rparr>) module_state))
       \<noteq> length DEFAULT_DEPLOY_STEPS"
  by (simp add: deployUndeployedSafe_def returned_steps_def alloc_def ok_env_def
      DEFAULT_DEPLOY_STEPS_def)

text \<open>
  C7, amended. With the template intact in the store: an attempt for which the Safe
  config, the connector, the signer and the chain id are present returns four new step
  objects, copies of the template; when something goes wrong at step \<open>k\<close> with message
  \<open>m\<close>, step \<open>k\<close> has status error and the message, every later step is as in the template
  (pending, no error, no hash), every earlier step has status success and no error, and
  the earlier steps from the broadcast on carry the hash the broadcast returned; when the
  broadcast throws, the statuses are success, error, pending, pending and no step has a
  hash. An attempt with an input missing returns the single step \<^verbatim>\<open>txCreated\<close> with status
  error. Either way no object that existed before is changed, the template included.
\<close>

theorem deploy_steps_on_failure:
  assumes "template_intact h"
    and "rs = returned_steps (deployUndeployedSafe env h)"
  shows
    "(have_inputs env \<longrightarrow>
        fst (deployUndeployedSafe env h) =
          [next_ref h, Suc (next_ref h), Suc (Suc (next_ref h)), Suc (Suc (Suc (next_ref h)))]
        \<and> length rs = 4
        \<and> (\<forall>k m. failure_of env = Some (k, m) \<longrightarrow>
             (\<forall>i<4. step (rs ! i) = step (template_steps ! i)
                \<and> (i < k \<longrightarrow> status (rs ! i) = Success \<and> error (rs ! i) = None
                       \<and> txHash (rs ! i) = (if i = 0 then None else sent_hash env))
                \<and> (i = k \<longrightarrow> status (rs ! i) = Failed \<and> error (rs ! i) = Some m)
                \<and> (k < i \<longrightarrow> status (rs ! i) = Pending \<and> error (rs ! i) = None
                       \<and> txHash (rs ! i) = None)))
        \<and> (\<forall>m. getMinimalEIP1193Provider env = Returns True \<and> safe_init env = Returns ()
                \<and> createSafeDeploymentTransaction env = Returns ()
                \<and> sendTransaction env = Throws m \<longrightarrow>
              map status rs = [Success, Failed, Pending, Pending]
              \<and> map error rs = [None, Some m, None, None]
              \<and> map txHash rs = [None, None, None, None]))
     \<and> (\<not> have_inputs env \<longrightarrow>
          rs = [\<lparr>step = ''txCreated'', status = Failed,
                 error = Some ''Missing Safe config, wallet connector, signer, or chainId.'',
                 txHash = None\<rparr>])
     \<and> (\<forall>r < next_ref h. objects (snd (deployUndeployedSafe env h)) r = objects h r)
     \<and> template_intact (snd (deployUndeployedSafe env h))"
proof (intro conjI impI)
  assume hi: "have_inputs env"
  have rs: "rs = outcome_steps env"
    unfolding assms(2) using assms(1) hi by (rule deploy_outcome)
  show "fst (deployUndeployedSafe env h) =
          [next_ref h, Suc (next_ref h), Suc (Suc (next_ref h)), Suc (Suc (Suc (next_ref h)))]"
    using assms(1) hi by (rule deploy_fresh)
  show "length rs = 4" by (simp add: rs outcome_steps_def)
  show "\<forall>k m. failure_of env = Some (k, m) \<longrightarrow>
             (\<forall>i<4. step (rs ! i) = step (template_steps ! i)
                \<and> (i < k \<longrightarrow> status (rs ! i) = Success \<and> error (rs ! i) = None
                       \<and> txHash (rs ! i) = (if i = 0 then None else sent_hash env))
                \<and> (i = k \<longrightarrow> status (rs ! i) = Failed \<and> error (rs ! i) = Some m)
                \<and> (k < i \<longrightarrow> status (rs ! i) = Pending \<and> error (rs ! i) = None
                       \<and> txHash (rs ! i) = None))"
  proof (intro allI impI)
    fix k :: nat and m' :: string and i :: nat
    assume f: "failure_of env = Some (k, m')" and i: "i < 4"
    from less_4_cases [OF i]
    show "step (rs ! i) = step (template_steps ! i)
                \<and> (i < k \<longrightarrow> status (rs ! i) = Success \<and> error (rs ! i) = None
                       \<and> txHash (rs ! i) = (if i = 0 then None else sent_hash env))
                \<and> (i = k \<longrightarrow> status (rs ! i) = Failed \<and> error (rs ! i) = Some m')
                \<and> (k < i \<longrightarrow> status (rs ! i) = Pending \<and> error (rs ! i) = None
                       \<and> txHash (rs ! i) = None)"
      by (elim disjE) (simp_all add: rs outcome_steps_def f template_steps_def default_step_def)
  qed
  show "\<forall>m. getMinimalEIP1193Provider env = Returns True \<and> safe_init env = Returns ()
                \<and> createSafeDeploymentTransaction env = Returns ()
                \<and> sendTransaction env = Throws m \<longrightarrow>
              map status rs = [Success, Failed, Pending, Pending]
              \<and> map error rs = [None, Some m, None, None]
              \<and> map txHash rs = [None, None, None, None]"
    by (simp add: rs outcome_steps_def failure_of_def sent_hash_def template_steps_def default_step_def)
next
  assume "\<not> have_inputs env"
  then show "rs = [\<lparr>step = ''txCreated'', status = Failed,
                 error = Some ''Missing Safe config, wallet connector, signer, or chainId.'',
                 txHash = None\<rparr>]"
    unfolding assms(2) by (rule deploy_missing_inputs)
next
  from assms(1) have "4 \<le> next_ref h" by (simp add: template_intact_def)
  then show "\<forall>r < next_ref h. objects (snd (deployUndeployedSafe env h)) r = objects h r"
    by (simp add: deploy_frame)
next
  show "template_intact (snd (deployUndeployedSafe env h))"
    using assms(1) by (rule deploy_keeps_template)
qed

theorem deploy_steps_on_failure_witness:
  "template_intact module_state
   \<and> have_inputs (ok_env\<lparr>sendTransaction := Throws ''user rejected''\<rparr>)
   \<and> failure_of (ok_env\<lparr>sendTransaction := Throws ''user rejected''\<rparr>) = Some (1, ''user rejected'')
   \<and> fst (deployUndeployedSafe (ok_env\<lparr>sendTransaction := Throws ''user rejected''\<rparr>) module_state)
       = [4, 5, 6, 7]
   \<and> map status (returned_steps
        (deployUndeployedSafe (ok_env\<lparr>sendTransaction := Throws ''user rejected''\<rparr>) module_state))
       = [Success, Failed, Pending, Pending]
   \<and> map error (returned_steps
        (deployUndeployedSafe (ok_env\<lparr>sendTransaction := Throws ''user rejected''\<rparr>) module_state))
       = [None, Some ''user rejected'', None, None]
   \<and> map txHash (returned_steps
        (deployUndeployedSafe (ok_env\<lparr>sendTransaction := Throws ''user rejected''\<rparr>) module_state))
       = [None, None, None, None]
   \<and> template_intact
        (snd (deployUndeployedSafe (ok_env\<lparr>sendTransaction := Throws ''user rejected''\<rparr>) module_state))"
proof -
  let ?env = "ok_env\<lparr>sendTransaction := Throws ''user rejected''\<rparr>"
  have e: "have_inputs ?env" "getMinimalEIP1193Provider ?env = Returns True"
    "safe_init ?env = Returns ()" "createSafeDeploymentTransaction ?env = Returns ()"
    "sendTransaction ?env = Throws ''user rejected''"
    by (simp_all add: ok_env_def)
  have f: "failure_of ?env = Some (1, ''user rejected'')"
    by (simp add: failure_of_def ok_env_def)
  have n: "next_ref module_state = 4" by (simp add: module_state_def)
  note T = deploy_steps_on_failure [OF template_intact_module refl, of ?env]
  from T e have "fst (deployUndeployedSafe ?env module_state) = [4, 5, 6, 7]"
    unfolding n by (simp add: eval_nat_numeral)
  moreover from T e have "map status (returned_steps (deployUndeployedSafe ?env module_state))
       = [Success, Failed, Pending, Pending]"
    "map error (returned_steps (deployUndeployedSafe ?env module_state))
       = [None, Some ''user rejected'', None, None]"
    "map txHash (returned_steps (deployUndeployedSafe ?env module_state))
       = [None, None, None, None]"
    by blast+
  moreover from T have "template_intact (snd (deployUndeployedSafe ?env module_state))" by blast
  ultimately show ?thesis using template_intact_module e(1) f by (intro conjI)
qed

end
